theory Spec2Isabelle
  imports Complex_Main
begin

section \<open>Python values\<close>

text \<open>
  The exceptions the modelled functions can raise. A function that can raise returns
  \<open>pyerr + 'a\<close>, with \<open>Inl\<close> carrying the exception.
\<close>

datatype pyerr =
  AssertionError | IndexError | ValueError | ZeroDivisionError | TypeError | RuntimeError
| OverflowError

text \<open>
  A Python character is one Unicode code point, so a \<open>str\<close> is a list of code points.
  \<open>lit\<close> and \<open>str\<close> turn the character and string literals of the source into that form.
\<close>

type_synonym pychar = nat
type_synonym pystr = "pychar list"

definition lit :: "char \<Rightarrow> pychar" where
  "lit c = of_char c"

definition str :: "string \<Rightarrow> pystr" where
  "str s = map lit s"

definition ord :: "pychar \<Rightarrow> int" where
  "ord ch = int ch"

definition chr :: "int \<Rightarrow> pyerr + pychar" where
  \<comment> \<open>\<open>chr\<close> takes a C \<open>int\<close>: OverflowError outside \<open>[-2^31, 2^31)\<close>; then ValueError
      outside \<open>range(0x110000)\<close>.\<close>
  "chr i =
     (if i < - 2147483648 \<or> 2147483648 \<le> i then Inl OverflowError
      else if 0 \<le> i \<and> i < 1114112 then Inr (nat i)
      else Inl ValueError)"

definition len :: "'a list \<Rightarrow> int" where
  "len xs = int (length xs)"

definition getitem :: "'a list \<Rightarrow> int \<Rightarrow> pyerr + 'a" where
  \<comment> \<open>\<open>xs[i]\<close>: a negative index counts from the end, out of range raises IndexError.\<close>
  "getitem xs i =
     (let j = (if i < 0 then len xs + i else i)
      in if 0 \<le> j \<and> j < len xs then Inr (xs ! nat j) else Inl IndexError)"

fun index :: "'a list \<Rightarrow> 'a \<Rightarrow> pyerr + int" where
  \<comment> \<open>\<open>xs.index(x)\<close>: the first position of \<open>x\<close>, ValueError when absent.\<close>
  "index [] x = Inl ValueError"
| "index (y # ys) x =
     (if y = x then Inr 0
      else case index ys x of Inl e \<Rightarrow> Inl e | Inr i \<Rightarrow> Inr (i + 1))"

section \<open>Tokenizer\<close>

definition operators :: "pychar list" where
  "operators = [lit CHR ''~'', lit CHR ''^'', lit CHR ''$'', lit CHR ''+'', lit CHR ''-'',
                lit CHR ''='']"

definition start_symbol :: int where
  "start_symbol = 1"

definition pad_symbol :: int where
  "pad_symbol = 0"

definition voca_size :: int where
  "voca_size = len operators + ord (lit CHR ''9'') - ord (lit CHR ''0'') + 1
                 + ord (lit CHR ''J'') - ord (lit CHR ''A'') + 1"

definition to_token :: "pychar \<Rightarrow> pyerr + int" where
  "to_token ch =
     (if ch \<in> set operators then index operators ch
      else
        let res = (if ord ch > ord (lit CHR ''9'')
                   then (ord ch - ord (lit CHR ''A'') + 10) + len operators
                   else (ord ch - ord (lit CHR ''0'')) + len operators)
        in if res < voca_size then Inr res else Inl AssertionError)"

definition from_token :: "int \<Rightarrow> pyerr + pychar" where
  "from_token token =
     (if token < len operators then getitem operators token
      else case to_token (lit CHR ''9'') of
        Inl e \<Rightarrow> Inl e
      | Inr t9 \<Rightarrow>
          if token > t9 then chr (token - t9 + ord (lit CHR ''A'') - 1)
          else chr (ord (lit CHR ''0'') + token - len operators))"

fun to_tokens :: "pystr \<Rightarrow> pyerr + int list" where
  "to_tokens [] = Inr []"
| "to_tokens (ch # text) =
     (case to_token ch of
        Inl e \<Rightarrow> Inl e
      | Inr token \<Rightarrow> (case to_tokens text of Inl e \<Rightarrow> Inl e | Inr res \<Rightarrow> Inr (token # res)))"

fun from_tokens :: "int list \<Rightarrow> pyerr + pystr" where
  "from_tokens [] = Inr []"
| "from_tokens (token # tokens) =
     (case from_token token of
        Inl e \<Rightarrow> Inl e
      | Inr ch \<Rightarrow> (case from_tokens tokens of Inl e \<Rightarrow> Inl e | Inr res \<Rightarrow> Inr (ch # res)))"

text \<open>
  The fixed alphabet the specification names: the six operator symbols, the digits
  \<open>'0'\<close> to \<open>'9'\<close> and the letters \<open>'A'\<close> to \<open>'J'\<close>.
\<close>

definition alphabet :: "pychar list" where
  "alphabet = operators @ str ''0123456789'' @ str ''ABCDEFGHIJ''"

section \<open>Masking\<close>

text \<open>
  Tensors are nested lists. \<open>torch.ones\<close> of a three-dimensional shape, \<open>torch.triu\<close>
  (which keeps the entries of each matrix with \<open>j - i \<ge> diagonal\<close> and zeroes the others)
  and the cast to \<open>uint8\<close> are written out as the library computes them.
\<close>

definition ones :: "nat \<times> nat \<times> nat \<Rightarrow> real list list list" where
  "ones shape = (case shape of (a, b, c) \<Rightarrow> replicate a (replicate b (replicate c 1)))"

definition triu :: "real list list list \<Rightarrow> int \<Rightarrow> real list list list" where
  "triu t diagonal =
     map (\<lambda>m. map (\<lambda>(i, row).
                  map (\<lambda>(j, v). if int j - int i \<ge> diagonal then v else 0) (enumerate 0 row))
                (enumerate 0 m)) t"

definition type_uint8 :: "real \<Rightarrow> nat" where
  "type_uint8 v = nat (\<lfloor>v\<rfloor> mod 256)"

definition subsequent_mask :: "int \<Rightarrow> pyerr + bool list list list" where
  \<comment> \<open>\<open>torch.ones\<close> raises RuntimeError on a negative dimension.\<close>
  "subsequent_mask size' =
     (if size' < 0 then Inl RuntimeError
      else
        let attn_shape = (1, nat size', nat size');
            subsequent_mask = map (map (map type_uint8)) (triu (ones attn_shape) 1)
        in Inr (map (map (map (\<lambda>v. v = 0))) subsequent_mask))"

section \<open>Multi-head attention: construction\<close>

text \<open>
  Of the constructed object the integer fields and the dropout rate are kept; the four
  linear maps are parameter tensors of the numerical engine. The constructor's checks are
  in the order the source runs them: the assertion, then \<open>nn.Linear\<close> (RuntimeError on a
  negative dimension), then \<open>nn.Dropout\<close> (ValueError on a rate outside \<open>[0, 1]\<close>).
\<close>

record MultiHeadedAttention =
  d_k :: int
  h :: int
  dropout :: real

definition MultiHeadedAttention_init :: "int \<Rightarrow> int \<Rightarrow> real \<Rightarrow> pyerr + MultiHeadedAttention" where
  "MultiHeadedAttention_init heads d_model p =
     (if heads = 0 then Inl ZeroDivisionError
      else if d_model mod heads \<noteq> 0 then Inl AssertionError
      else if d_model < 0 then Inl RuntimeError
      else if p < 0 \<or> 1 < p then Inl ValueError
      else Inr \<lparr>d_k = d_model div heads, h = heads, dropout = p\<rparr>)"

section \<open>Floating point\<close>

text \<open>
  An IEEE 754 binary format with precision \<open>p\<close> and exponent range \<open>emin .. emax\<close>.
  \<open>fl_round\<close> rounds a real to the nearest number of the format, ties to even, with gradual
  underflow; \<open>None\<close> stands for a result beyond the largest finite number (an infinity, or
  an OverflowError where Python raises one). \<open>exponent\<close> finds the binary exponent of a
  magnitude by repeated halving or doubling, within the format's range. \<open>magnitude\<close> is the
  rounded absolute value, named for the proofs.
\<close>

definition round_half_even :: "real \<Rightarrow> int" where
  "round_half_even y =
     (let n = \<lfloor>y\<rfloor>; r = y - of_int n
      in if r < 1 / 2 then n else if 1 / 2 < r then n + 1 else if even n then n else n + 1)"

primrec halvings :: "nat \<Rightarrow> real \<Rightarrow> nat" where
  "halvings 0 y = 0"
| "halvings (Suc n) y = (if 2 \<le> y then Suc (halvings n (y / 2)) else 0)"

primrec doublings :: "nat \<Rightarrow> real \<Rightarrow> nat" where
  "doublings 0 y = 0"
| "doublings (Suc n) y = (if y < 1 then Suc (doublings n (2 * y)) else 0)"

definition exponent :: "int \<Rightarrow> int \<Rightarrow> real \<Rightarrow> int" where
  "exponent emin emax a =
     (if a < 2 powi emin then emin
      else if 1 \<le> a then int (halvings (nat (emax + 1)) a)
      else - int (doublings (nat (- emin)) a))"

definition fl_round :: "nat \<Rightarrow> int \<Rightarrow> int \<Rightarrow> real \<Rightarrow> real option" where
  "fl_round p emin emax x =
     (let a = \<bar>x\<bar>
      in if 2 powi (emax + 1) \<le> a then None
         else
           let q = 2 powi (exponent emin emax a - int p + 1);
               r = of_int (round_half_even (a / q)) * q
           in if 2 powi (emax + 1) \<le> r then None else Some (sgn x * r))"

definition binary64 :: "real \<Rightarrow> real option" where
  "binary64 = fl_round 53 (- 1022) 1023"

definition binary32 :: "real \<Rightarrow> real option" where
  "binary32 = fl_round 24 (- 126) 127"

definition magnitude :: "nat \<Rightarrow> int \<Rightarrow> int \<Rightarrow> real \<Rightarrow> real" where
  "magnitude p emin emax a =
     of_int (round_half_even (a / 2 powi (exponent emin emax a - int p + 1)))
       * 2 powi (exponent emin emax a - int p + 1)"

section \<open>Learning-rate schedule\<close>

text \<open>
  An argument of \<open>rate\<close> is a Python int or a Python float; a float is given by its value,
  a finite double. An int meets a float only after its conversion to a double, which
  rounds to nearest and raises OverflowError beyond the double range. The result of a float
  operation is a finite double, an infinity, a NaN, or a Python \<open>complex\<close> (a negative base
  under a fractional exponent), which is a value and not an exception; its components are
  not modelled. \<open>min\<close> on a complex raises TypeError.

  The power of two doubles is computed by the C library, which is a parameter \<open>pw\<close> of the
  model: \<open>pw b e\<close> is the double the library returns for a base \<open>b > 0\<close>, or the exception
  that Python raises when the library reports a range error. \<open>pow_rounded\<close> is the
  correctly rounded power.
\<close>

datatype pyval = PyInt int | PyFloat real

datatype pynum = Float real | PInf | NInf | NaN | Complex

definition float_of_int :: "int \<Rightarrow> pyerr + real" where
  "float_of_int i = (case binary64 (of_int i) of None \<Rightarrow> Inl OverflowError | Some r \<Rightarrow> Inr r)"

definition as_float :: "pyval \<Rightarrow> pyerr + real" where
  "as_float v = (case v of PyInt i \<Rightarrow> float_of_int i | PyFloat r \<Rightarrow> Inr r)"

definition pow_py :: "(real \<Rightarrow> real \<Rightarrow> pyerr + real) \<Rightarrow> pyval \<Rightarrow> real \<Rightarrow> pyerr + pynum" where
  \<comment> \<open>\<open>v ** e\<close> for the negative, fractional exponents \<open>e\<close> that \<open>rate\<close> uses. The complex
      power of a negative base has the modulus \<open>pow(-b, e)\<close> and raises as that does.\<close>
  "pow_py pw v e =
     (case as_float v of
        Inl err \<Rightarrow> Inl err
      | Inr b \<Rightarrow>
          if b = 0 then Inl ZeroDivisionError
          else if b < 0 then (case pw (- b) e of Inl err \<Rightarrow> Inl err | Inr r \<Rightarrow> Inr Complex)
          else if b = 1 then Inr (Float 1)
          else (case pw b e of Inl err \<Rightarrow> Inl err | Inr r \<Rightarrow> Inr (Float r)))"

fun fmul :: "pynum \<Rightarrow> pynum \<Rightarrow> pynum" where
  "fmul Complex y = Complex"
| "fmul x Complex = Complex"
| "fmul NaN y = NaN"
| "fmul x NaN = NaN"
| "fmul (Float a) (Float b) =
     (case binary64 (a * b) of Some r \<Rightarrow> Float r | None \<Rightarrow> if 0 < a * b then PInf else NInf)"
| "fmul (Float a) y = (if a = 0 then NaN else if (0 < a) = (y = PInf) then PInf else NInf)"
| "fmul x (Float b) = (if b = 0 then NaN else if (0 < b) = (x = PInf) then PInf else NInf)"
| "fmul x y = (if x = y then PInf else NInf)"

fun flt :: "pynum \<Rightarrow> pynum \<Rightarrow> bool" where
  "flt (Float a) (Float b) = (a < b)"
| "flt (Float a) PInf = True"
| "flt NInf (Float b) = True"
| "flt NInf PInf = True"
| "flt x y = False"

definition min_py :: "pynum \<Rightarrow> pynum \<Rightarrow> pyerr + pynum" where
  \<comment> \<open>\<open>min(a, b)\<close> is \<open>b\<close> when \<open>b < a\<close> and \<open>a\<close> otherwise.\<close>
  "min_py a b =
     (if a = Complex \<or> b = Complex then Inl TypeError else Inr (if flt b a then b else a))"

definition decay_term :: "(real \<Rightarrow> real \<Rightarrow> pyerr + real) \<Rightarrow> int \<Rightarrow> pyerr + pynum" where
  \<comment> \<open>\<open>step ** (-0.5)\<close>\<close>
  "decay_term pw step = pow_py pw (PyInt step) (- (1 / 2))"

definition warmup_term ::
  "(real \<Rightarrow> real \<Rightarrow> pyerr + real) \<Rightarrow> int \<Rightarrow> pyval \<Rightarrow> pyerr + pynum" where
  \<comment> \<open>\<open>step * warmup ** (-1.5)\<close>\<close>
  "warmup_term pw step warmup =
     (case pow_py pw warmup (- (3 / 2)) of
        Inl err \<Rightarrow> Inl err
      | Inr c \<Rightarrow>
          (case float_of_int step of
             Inl err \<Rightarrow> Inl err
           | Inr s \<Rightarrow> Inr (fmul (Float s) c)))"

definition rate ::
  "(real \<Rightarrow> real \<Rightarrow> pyerr + real) \<Rightarrow> int \<Rightarrow> pyval \<Rightarrow> pyval \<Rightarrow> pyval \<Rightarrow> pyerr + pynum" where
  "rate pw step model_size factor warmup =
     (let step = (if step = 0 then 1 else step)
      in case pow_py pw model_size (- (1 / 2)) of
           Inl err \<Rightarrow> Inl err
         | Inr a \<Rightarrow>
             (case decay_term pw step of
                Inl err \<Rightarrow> Inl err
              | Inr b \<Rightarrow>
                  (case warmup_term pw step warmup of
                     Inl err \<Rightarrow> Inl err
                   | Inr c \<Rightarrow>
                       (case min_py b c of
                          Inl err \<Rightarrow> Inl err
                        | Inr m \<Rightarrow>
                            (case as_float factor of
                               Inl err \<Rightarrow> Inl err
                             | Inr f \<Rightarrow> Inr (fmul (Float f) (fmul a m)))))))"


section \<open>Label smoothing\<close>

text \<open>
  A two-dimensional float tensor carries its shape, so that an empty batch still has a
  width, and its element type, \<open>torch.float32\<close> or \<open>torch.float64\<close>. A tensor scalar is a
  real or a non-finite float (NaN or an infinity): dividing a tensor by zero raises nothing.

  A Python float is a double, given by its value. \<open>double\<close> rounds the exact result of a
  float operation to a double; a difference \<open>1.0 - s\<close> and a quotient by a divisor of
  magnitude at least 1 stay within the double range, so its second branch is not reached
  from a double. \<open>to_dtype\<close> is the conversion of a Python float written into a tensor by
  \<open>fill_\<close> or \<open>scatter_\<close>: the engine refuses a value beyond the largest finite number of
  the element type and rounds every other value to the nearest element.
\<close>

datatype dtype = float32 | float64

record tensor2 =
  dim0 :: nat
  dim1 :: nat
  dtype :: dtype
  rows :: "real list list"

datatype scalar = Finite real | NonFinite

definition double :: "real \<Rightarrow> real" where
  "double v = (case binary64 v of Some r \<Rightarrow> r | None \<Rightarrow> v)"

definition dtype_max :: "dtype \<Rightarrow> real" where
  "dtype_max d = (case d of float32 \<Rightarrow> (2 ^ 24 - 1) * 2 ^ 104 | float64 \<Rightarrow> (2 ^ 53 - 1) * 2 ^ 971)"

definition to_dtype :: "dtype \<Rightarrow> real \<Rightarrow> pyerr + real" where
  "to_dtype d v =
     (if dtype_max d < \<bar>v\<bar> then Inl RuntimeError
      else case (case d of float32 \<Rightarrow> binary32 v | float64 \<Rightarrow> binary64 v) of
             None \<Rightarrow> Inl RuntimeError
           | Some r \<Rightarrow> Inr r)"

definition full :: "nat \<Rightarrow> nat \<Rightarrow> real \<Rightarrow> real list list" where
  \<comment> \<open>\<open>x.data.clone()\<close> followed by \<open>fill_(v)\<close>: a tensor of the shape of \<open>x\<close> holding \<open>v\<close>.\<close>
  "full n m v = replicate n (replicate m v)"

fun scatter1 :: "real list list \<Rightarrow> int list \<Rightarrow> real \<Rightarrow> pyerr + real list list" where
  \<comment> \<open>\<open>t.scatter_(1, idx.unsqueeze(1), v)\<close>: row \<open>i\<close> gets \<open>v\<close> at column \<open>idx[i]\<close>. The index
      may have fewer rows than \<open>t\<close>, never more, and every entry must be a column of \<open>t\<close>.\<close>
  "scatter1 t [] v = Inr t"
| "scatter1 [] (i # idx) v = Inl RuntimeError"
| "scatter1 (r # t) (i # idx) v =
     (if 0 \<le> i \<and> i < len r
      then case scatter1 t idx v of
             Inl e \<Rightarrow> Inl e
           | Inr t' \<Rightarrow> Inr (r[nat i := v] # t')
      else Inl RuntimeError)"

definition set_column :: "nat \<Rightarrow> real list list \<Rightarrow> int \<Rightarrow> real \<Rightarrow> pyerr + real list list" where
  \<comment> \<open>\<open>t[:, idx] = v\<close> on a tensor with \<open>ncols\<close> columns; a negative index counts from the end.\<close>
  "set_column ncols t idx v =
     (let j = (if idx < 0 then int ncols + idx else idx)
      in if 0 \<le> j \<and> j < int ncols then Inr (map (\<lambda>r. r[nat j := v]) t) else Inl IndexError)"

definition nonzero :: "bool list \<Rightarrow> nat list" where
  "nonzero bs = map fst (filter snd (enumerate 0 bs))"

definition index_fill0 :: "real list list \<Rightarrow> nat list \<Rightarrow> real \<Rightarrow> pyerr + real list list" where
  \<comment> \<open>\<open>t.index_fill_(0, idx, v)\<close>: every row named by \<open>idx\<close> is filled with \<open>v\<close>.\<close>
  "index_fill0 t idx v =
     (if \<forall>i \<in> set idx. i < length t
      then Inr (map (\<lambda>(i, r). if i \<in> set idx then map (\<lambda>_. v) r else r) (enumerate 0 t))
      else Inl IndexError)"

definition kl_pointwise :: "real \<Rightarrow> real \<Rightarrow> real" where
  \<comment> \<open>\<open>xlogy(t, t) - t * x\<close>, for a target entry \<open>t \<ge> 0\<close>.\<close>
  "kl_pointwise x t = (if t = 0 then 0 else t * (ln t - x))"

definition KLDivLoss_sum :: "real list list \<Rightarrow> real list list \<Rightarrow> scalar" where
  \<comment> \<open>\<open>nn.KLDivLoss(reduction="sum")\<close>; a negative target entry makes the result NaN.\<close>
  "KLDivLoss_sum x t =
     (if \<exists>r \<in> set t. \<exists>v \<in> set r. v < 0 then NonFinite
      else Finite (sum_list (map (\<lambda>(xr, tr). sum_list (map2 kl_pointwise xr tr)) (zip x t))))"

record LabelSmoothing =
  padding_idx :: int
  confidence :: real
  smoothing :: real
  size' :: int
  true_dist :: "real list list option"

definition LabelSmoothing_init :: "int \<Rightarrow> int \<Rightarrow> real \<Rightarrow> pyerr + LabelSmoothing" where
  \<comment> \<open>The constructor stores its arguments and \<open>1.0 - smoothing\<close>; it has no check and no
      division.\<close>
  "LabelSmoothing_init sz pad s =
     Inr \<lparr>padding_idx = pad, confidence = double (1 - s), smoothing = s, size' = sz,
          true_dist = None\<rparr>"

definition LabelSmoothing_forward ::
  "LabelSmoothing \<Rightarrow> tensor2 \<Rightarrow> int list \<Rightarrow> pyerr + (LabelSmoothing \<times> scalar)" where
  \<comment> \<open>\<open>true_dist\<close> is a clone of \<open>x\<close> and has its element type. The quotient
      \<open>smoothing / (size - 2)\<close> is a Python float: the int is converted, a zero divisor
      raises, the result is a double.\<close>
  "LabelSmoothing_forward self x target =
     (if int (dim1 x) \<noteq> size' self then Inl AssertionError
      else
        case float_of_int (size' self - 2) of
          Inl e \<Rightarrow> Inl e
        | Inr d \<Rightarrow>
            if d = 0 then Inl ZeroDivisionError
            else
              case to_dtype (tensor2.dtype x) (double (smoothing self / d)) of
                Inl e \<Rightarrow> Inl e
              | Inr v \<Rightarrow>
                  (case to_dtype (tensor2.dtype x) (confidence self) of
                     Inl e \<Rightarrow> Inl e
                   | Inr c \<Rightarrow>
                       (case scatter1 (full (dim0 x) (dim1 x) v) target c of
                          Inl e \<Rightarrow> Inl e
                        | Inr td \<Rightarrow>
                            (case set_column (dim1 x) td (padding_idx self) 0 of
                               Inl e \<Rightarrow> Inl e
                             | Inr td \<Rightarrow>
                                 let mask = nonzero (map (\<lambda>t. t = padding_idx self) target)
                                 in case index_fill0 td mask 0 of
                                      Inl e \<Rightarrow> Inl e
                                    | Inr td \<Rightarrow>
                                        Inr (self\<lparr>true_dist := Some td\<rparr>,
                                             KLDivLoss_sum (rows x) td)))))"

section \<open>Greedy decoding\<close>

text \<open>
  The model is a parameter: its three entry points are functions over the engine's
  tensors, whose types are left open. The generator's output has shape
  \<open>[batch, positions, vocabulary]\<close>. The output \<open>ys\<close> has shape \<open>[1, L]\<close> from its creation
  to the return, and is modelled by its single row. Every call into the model is recorded,
  with its arguments, in the order it is made.
\<close>

record tensor3 =
  size0 :: nat
  size1 :: nat
  size2 :: nat
  dtype :: dtype
  data :: "real list list list"











section \<open>Loss computation and batches\<close>











section \<open>Training loop\<close>

text \<open>
  The model, the loss computation, the optimizer and the scheduler are parameters. They
  act on the engine's state (parameters, gradients, learning rate), an open type \<open>'w\<close>
  threaded through the loop in the order of the calls. The calls themselves are recorded
  in a trace: it is what the claims about the loop speak of.
\<close>

record TrainState =
  step :: int
  accum_step :: int
  samples :: int
  tokens :: int












section \<open>Elementary addition on digit strings\<close>

definition padding_str :: "pystr \<Rightarrow> int \<Rightarrow> string \<Rightarrow> pystr" where
  "padding_str text length' position =
     (if position = ''left'' then
        (if length' > len text
         then replicate (nat (length' - len text)) (lit CHR ''0'') @ text else text)
      else if position = ''right'' then
        (if length' > len text
         then text @ replicate (nat (length' - len text)) (lit CHR ''0'') else text)
      else text)"

definition digit_sum_char :: "pychar \<Rightarrow> pychar \<Rightarrow> pyerr + pychar" where
  \<comment> \<open>The body of the loop of \<open>sum_two_str\<close>.\<close>
  "digit_sum_char ch1 ch2 =
     (let ch = (ord ch1 - ord (lit CHR ''0'')) + (ord ch2 - ord (lit CHR ''0''))
                 + ord (lit CHR ''0'');
          ch = (if ch > ord (lit CHR ''9'')
                then ch - ord (lit CHR ''9'') + ord (lit CHR ''A'') else ch)
      in chr ch)"

fun sum_loop :: "(pychar \<times> pychar) list \<Rightarrow> pystr \<Rightarrow> pyerr + pystr" where
  \<comment> \<open>\<open>for ch1, ch2 in zip(text1, text2): ... res += chr(ch)\<close>\<close>
  "sum_loop [] res = Inr res"
| "sum_loop ((ch1, ch2) # rest) res =
     (case digit_sum_char ch1 ch2 of
        Inl e \<Rightarrow> Inl e
      | Inr c \<Rightarrow> sum_loop rest (res @ [c]))"

definition sum_two_str :: "pystr \<Rightarrow> pystr \<Rightarrow> pyerr + (pystr \<times> pystr \<times> pystr)" where
  "sum_two_str str1 str2 =
     (let length' = max (len str1) (len str2);
          text1 = padding_str str1 length' ''left'';
          text2 = padding_str str2 length' ''left''
      in case sum_loop (zip text1 text2) [] of
           Inl e \<Rightarrow> Inl e
         | Inr res \<Rightarrow> Inr (text1, text2, res))"

section \<open>Tokenizer: properties\<close>

lemma chr_range:
  "chr (- 2147483649) = Inl OverflowError" "chr (- 1) = Inl ValueError"
  "chr 1114111 = Inr 1114111" "chr 1114112 = Inl ValueError"
  "chr 2147483648 = Inl OverflowError"
  by (simp_all add: chr_def)

lemma operators_codes: "operators = [126, 94, 36, 43, 45, 61]"
  by (simp add: operators_def lit_def)

lemma voca_size_26: "voca_size = 26"
  by (simp add: voca_size_def operators_codes len_def ord_def lit_def)

lemma alphabet_codes:
  "alphabet = [126, 94, 36, 43, 45, 61,
               48, 49, 50, 51, 52, 53, 54, 55, 56, 57,
               65, 66, 67, 68, 69, 70, 71, 72, 73, 74]"
  by (simp add: alphabet_def operators_codes str_def lit_def)

lemmas tokenizer_defs =
  to_token_def from_token_def operators_codes voca_size_26 len_def ord_def lit_def
  getitem_def chr_def Let_def

lemma to_token_alphabet:
  assumes "c \<in> set alphabet"
  shows "\<exists>t. to_token c = Inr t \<and> 0 \<le> t \<and> t < voca_size \<and> from_token t = Inr c"
proof -
  from assms have
    "c = 126 \<or> c = 94 \<or> c = 36 \<or> c = 43 \<or> c = 45 \<or> c = 61 \<or>
     c = 48 \<or> c = 49 \<or> c = 50 \<or> c = 51 \<or> c = 52 \<or> c = 53 \<or> c = 54 \<or> c = 55 \<or>
     c = 56 \<or> c = 57 \<or>
     c = 65 \<or> c = 66 \<or> c = 67 \<or> c = 68 \<or> c = 69 \<or> c = 70 \<or> c = 71 \<or> c = 72 \<or>
     c = 73 \<or> c = 74"
    by (simp add: alphabet_codes)
  then show ?thesis
    by (elim disjE; simp add: tokenizer_defs)
qed

lemma from_token_range:
  assumes "0 \<le> t" and "t < voca_size"
  shows "\<exists>c. from_token t = Inr c \<and> c \<in> set alphabet \<and> to_token c = Inr t"
proof -
  from assms have
    "t = 0 \<or> t = 1 \<or> t = 2 \<or> t = 3 \<or> t = 4 \<or> t = 5 \<or> t = 6 \<or> t = 7 \<or> t = 8 \<or>
     t = 9 \<or> t = 10 \<or> t = 11 \<or> t = 12 \<or> t = 13 \<or> t = 14 \<or> t = 15 \<or> t = 16 \<or>
     t = 17 \<or> t = 18 \<or> t = 19 \<or> t = 20 \<or> t = 21 \<or> t = 22 \<or> t = 23 \<or> t = 24 \<or>
     t = 25"
    unfolding voca_size_26 by arith
  then show ?thesis
    by (elim disjE; simp add: tokenizer_defs alphabet_codes)
qed

text \<open>
  Claim C2. Every character of the alphabet is mapped by \<open>to_token\<close> to an id in
  \<open>[0, voca_size)\<close> that \<open>from_token\<close> maps back to the character, and every id in
  \<open>[0, voca_size)\<close> is mapped by \<open>from_token\<close> to a character of the alphabet that
  \<open>to_token\<close> maps back to the id.
\<close>

theorem tokenizer_round_trip:
  "(c \<in> set alphabet \<longrightarrow>
      (\<exists>t. to_token c = Inr t \<and> 0 \<le> t \<and> t < voca_size \<and> from_token t = Inr c)) \<and>
   (0 \<le> t \<and> t < voca_size \<longrightarrow>
      (\<exists>c. from_token t = Inr c \<and> c \<in> set alphabet \<and> to_token c = Inr t))"
  using to_token_alphabet from_token_range by blast

theorem tokenizer_round_trip_witness:
  "lit CHR ''J'' \<in> set alphabet \<and>
   (\<exists>t. to_token (lit CHR ''J'') = Inr t \<and> 0 \<le> t \<and> t < voca_size \<and>
        from_token t = Inr (lit CHR ''J'')) \<and>
   (0::int) \<le> 6 \<and> 6 < voca_size \<and>
   (\<exists>c. from_token 6 = Inr c \<and> c \<in> set alphabet \<and> to_token c = Inr 6)"
proof -
  have a: "lit CHR ''J'' \<in> set alphabet"
    by (simp add: alphabet_codes lit_def)
  have b: "(0::int) \<le> 6 \<and> 6 < voca_size"
    by (simp add: voca_size_26)
  from a b tokenizer_round_trip [of "lit CHR ''J''" 6] show ?thesis
    by blast
qed

text \<open>
  \<open>to_token\<close> raises exactly on the characters from \<open>'K'\<close> (code point 75) on that are not
  operators.
\<close>

lemma to_token_fails_iff:
  "to_token ch = Inl e \<longleftrightarrow> e = AssertionError \<and> ch \<notin> set operators \<and> 75 \<le> ch"
proof (cases "ch \<in> set operators")
  case True
  then have "ch = 126 \<or> ch = 94 \<or> ch = 36 \<or> ch = 43 \<or> ch = 45 \<or> ch = 61"
    by (simp add: operators_codes)
  then show ?thesis
    by (elim disjE; simp add: to_token_def operators_codes)
next
  case False
  then show ?thesis
    by (auto simp add: to_token_def voca_size_26 len_def ord_def lit_def Let_def operators_codes)
qed

text \<open>
  Claim C7. \<open>to_token\<close> is claimed to fail on every character outside the alphabet. The
  colon is outside the alphabet, and \<open>to_token\<close> returns for it the id 9, which is the id
  of the digit \<open>'3'\<close>; for the space it returns the negative number -10. The assertion
  only bounds the result from above, so it fails from \<open>'K'\<close> on.
\<close>

theorem to_token_outside_alphabet:
  "lit CHR '':'' \<notin> set alphabet \<and> to_token (lit CHR '':'') = Inr 9 \<and>
   to_token (lit CHR ''3'') = Inr 9 \<and>
   lit CHR '' '' \<notin> set alphabet \<and> to_token (lit CHR '' '') = Inr (- 10) \<and>
   to_token (lit CHR ''K'') = Inl AssertionError"
  by (simp add: alphabet_codes to_token_def operators_codes voca_size_26 len_def ord_def
      lit_def Let_def)

section \<open>Elementary addition: properties\<close>

lemmas sum_two_str_defs =
  sum_two_str_def padding_str_def digit_sum_char_def str_def lit_def len_def ord_def
  chr_def Let_def

text \<open>
  On digit strings \<open>sum_two_str\<close> returns the two operands, the shorter padded on the left
  with \<open>'0'\<close>, and for each position the digit for a sum up to 9 and otherwise the letter
  at distance \<open>sum - 9\<close> from \<open>'A'\<close>: no carry moves to the next position.
\<close>

lemma digit_sum_char_digits:
  assumes "48 \<le> c1" "c1 \<le> 57" "48 \<le> c2" "c2 \<le> 57"
  shows "digit_sum_char c1 c2 =
     Inr (if (c1 - 48) + (c2 - 48) \<le> 9 then 48 + ((c1 - 48) + (c2 - 48))
          else 65 + ((c1 - 48) + (c2 - 48) - 9))"
  using assms by (auto simp add: digit_sum_char_def ord_def lit_def chr_def Let_def)

lemma sum_loop_digits:
  assumes "\<forall>(c1, c2) \<in> set zs. 48 \<le> c1 \<and> c1 \<le> 57 \<and> 48 \<le> c2 \<and> c2 \<le> 57"
  shows "sum_loop zs acc =
     Inr (acc @ map (\<lambda>(c1, c2). if (c1 - 48) + (c2 - 48) \<le> 9 then 48 + ((c1 - 48) + (c2 - 48))
                               else 65 + ((c1 - 48) + (c2 - 48) - 9)) zs)"
  using assms
proof (induction zs arbitrary: acc)
  case Nil
  then show ?case by simp
next
  case (Cons z zs)
  obtain c1 c2 where z: "z = (c1, c2)" by (cases z)
  from Cons.prems z have d: "48 \<le> c1" "c1 \<le> 57" "48 \<le> c2" "c2 \<le> 57" by auto
  from Cons.prems have rest: "\<forall>(c1, c2) \<in> set zs. 48 \<le> c1 \<and> c1 \<le> 57 \<and> 48 \<le> c2 \<and> c2 \<le> 57"
    by simp
  show ?case
    unfolding z using Cons.IH [OF rest] by (simp add: digit_sum_char_digits [OF d])
qed

lemma sum_two_str_digits:
  assumes "\<forall>c \<in> set str1. 48 \<le> c \<and> c \<le> 57" and "\<forall>c \<in> set str2. 48 \<le> c \<and> c \<le> 57"
  shows "sum_two_str str1 str2 =
     (let n = max (length str1) (length str2);
          text1 = replicate (n - length str1) 48 @ str1;
          text2 = replicate (n - length str2) 48 @ str2
      in Inr (text1, text2,
              map (\<lambda>(c1, c2). if (c1 - 48) + (c2 - 48) \<le> 9 then 48 + ((c1 - 48) + (c2 - 48))
                               else 65 + ((c1 - 48) + (c2 - 48) - 9)) (zip text1 text2)))"
proof -
  let ?n = "max (length str1) (length str2)"
  let ?t1 = "replicate (?n - length str1) 48 @ str1"
  let ?t2 = "replicate (?n - length str2) 48 @ str2"
  have p1: "padding_str str1 (max (len str1) (len str2)) ''left'' = ?t1"
    by (auto simp add: padding_str_def len_def lit_def max_def nat_diff_distrib')
  have p2: "padding_str str2 (max (len str1) (len str2)) ''left'' = ?t2"
    by (auto simp add: padding_str_def len_def lit_def max_def nat_diff_distrib')
  have d1: "\<forall>c \<in> set ?t1. 48 \<le> c \<and> c \<le> 57" using assms(1) by auto
  have d2: "\<forall>c \<in> set ?t2. 48 \<le> c \<and> c \<le> 57" using assms(2) by auto
  have "\<forall>(c1, c2) \<in> set (zip ?t1 ?t2). 48 \<le> c1 \<and> c1 \<le> 57 \<and> 48 \<le> c2 \<and> c2 \<le> 57"
  proof (clarify)
    fix c1 c2 assume "(c1, c2) \<in> set (zip ?t1 ?t2)"
    then have "c1 \<in> set ?t1" "c2 \<in> set ?t2" by (auto dest: set_zip_leftD set_zip_rightD)
    with d1 d2 show "48 \<le> c1 \<and> c1 \<le> 57 \<and> 48 \<le> c2 \<and> c2 \<le> 57" by blast
  qed
  from sum_loop_digits [OF this, of "[]"] show ?thesis
    by (simp add: sum_two_str_def Let_def p1 p2)
qed

text \<open>
  Claim C1. The digit sum 10 is claimed to give the letter \<open>'A'\<close>. \<open>sum_two_str("5", "5")\<close>
  returns \<open>'B'\<close>: the overflow branch computes \<open>ch - ord('9') + ord('A')\<close>, which is
  \<open>ord('A') + 1\<close> at the first overflowing sum. Padding and the absence of a carry are as
  claimed: \<open>sum_two_str("123", "877")\<close> is \<open>"99B"\<close> and \<open>sum_two_str("7", "15")\<close> pads the
  first operand to \<open>"07"\<close>.
\<close>

theorem sum_two_str_overflow_letter:
  "sum_two_str (str ''5'') (str ''5'') = Inr (str ''5'', str ''5'', str ''B'') \<and>
   sum_two_str (str ''123'') (str ''877'') = Inr (str ''123'', str ''877'', str ''99B'') \<and>
   sum_two_str (str ''7'') (str ''15'') = Inr (str ''07'', str ''15'', str ''1D'') \<and>
   sum_two_str (str ''9'') (str ''9'') = Inr (str ''9'', str ''9'', str ''J'')"
  by (simp add: sum_two_str_defs)

section \<open>Masking: properties\<close>

lemma triu_ones_entry:
  assumes "i < n" "j < n"
  shows "triu (ones (1, n, n)) d ! 0 ! i ! j = (if int j - int i \<ge> d then 1 else 0)"
  using assms by (simp add: triu_def ones_def nth_enumerate_eq)

lemma subsequent_mask_shape:
  assumes "0 \<le> n"
  shows "\<exists>m. subsequent_mask n = Inr [m] \<and> length m = nat n \<and> (\<forall>i < nat n. length (m ! i) = nat n)"
  using assms by (simp add: subsequent_mask_def triu_def ones_def nth_enumerate_eq Let_def)

lemma subsequent_mask_entry:
  assumes "0 \<le> n" "subsequent_mask n = Inr [m]" "i < nat n" "j < nat n"
  shows "m ! i ! j \<longleftrightarrow> j \<le> i"
proof -
  from assms(1,2) have m: "m = map (map (\<lambda>v. v = 0)) (map (map type_uint8) (triu (ones (1, nat n, nat n)) 1 ! 0))"
    by (simp add: subsequent_mask_def Let_def triu_def ones_def)
  have len: "length (triu (ones (1, nat n, nat n)) 1 ! 0) = nat n" "length (triu (ones (1, nat n, nat n)) 1 ! 0 ! i) = nat n"
    using assms(3) by (simp_all add: triu_def ones_def nth_enumerate_eq)
  have "m ! i ! j = (type_uint8 (triu (ones (1, nat n, nat n)) 1 ! 0 ! i ! j) = 0)"
    using assms(3,4) len by (simp add: m)
  also have "\<dots> = (type_uint8 (if int j - int i \<ge> 1 then 1 else 0) = 0)"
    using assms(3,4) by (simp only: triu_ones_entry)
  also have "\<dots> = (j \<le> i)"
    by (auto simp add: type_uint8_def)
  finally show ?thesis .
qed

text \<open>
  Claim C4. For \<open>n \<ge> 1\<close>, \<open>subsequent_mask(n)\<close> returns a tensor of shape \<open>[1, n, n]\<close> whose
  entry \<open>(i, j)\<close> is true exactly when \<open>j \<le> i\<close>.
\<close>

theorem subsequent_mask_lower_triangular:
  assumes "1 \<le> n"
  shows "\<exists>m. subsequent_mask n = Inr [m] \<and> length m = nat n \<and>
             (\<forall>i < nat n. length (m ! i) = nat n \<and> (\<forall>j < nat n. m ! i ! j \<longleftrightarrow> j \<le> i))"
proof -
  from assms have n: "0 \<le> n" by simp
  from subsequent_mask_shape [OF n] obtain m where
    m: "subsequent_mask n = Inr [m]" "length m = nat n" "\<forall>i < nat n. length (m ! i) = nat n"
    by blast
  have "\<forall>i < nat n. \<forall>j < nat n. m ! i ! j \<longleftrightarrow> j \<le> i"
    using subsequent_mask_entry [OF n m(1)] by blast
  with m show ?thesis by blast
qed

theorem subsequent_mask_lower_triangular_witness:
  "(1::int) \<le> 3 \<and>
   (\<exists>m. subsequent_mask 3 = Inr [m] \<and> length m = nat 3 \<and>
        (\<forall>i < nat 3. length (m ! i) = nat 3 \<and> (\<forall>j < nat 3. m ! i ! j \<longleftrightarrow> j \<le> i)))"
proof -
  have n: "(1::int) \<le> 3" by simp
  from n subsequent_mask_lower_triangular [OF n] show ?thesis by blast
qed

section \<open>Floating point: properties\<close>

lemmas fl_eval = fl_round_def exponent_def round_half_even_def Let_def power_int_def
  numeral_eq_Suc


lemma round_half_even_floor: "\<lfloor>y\<rfloor> \<le> round_half_even y"
  by (simp add: round_half_even_def Let_def)

lemma round_half_even_ceil: "round_half_even y \<le> \<lfloor>y\<rfloor> + 1"
  by (simp add: round_half_even_def Let_def)

lemma round_half_even_int [simp]: "round_half_even (of_int n) = n"
  by (simp add: round_half_even_def Let_def)

lemma round_half_even_le_int:
  assumes "y \<le> of_int n"
  shows "round_half_even y \<le> n"
proof (cases "y = of_int n")
  case True
  then show ?thesis by simp
next
  case False
  with assms have "y < of_int n" by simp
  then have "\<lfloor>y\<rfloor> < n" by (simp add: floor_less_iff)
  with round_half_even_ceil [of y] show ?thesis by linarith
qed

lemma round_half_even_ge_int:
  assumes "of_int n \<le> y"
  shows "n \<le> round_half_even y"
proof -
  from assms have "n \<le> \<lfloor>y\<rfloor>" by (simp add: le_floor_iff)
  with round_half_even_floor [of y] show ?thesis by linarith
qed

lemma round_half_even_mono:
  assumes "y \<le> y'"
  shows "round_half_even y \<le> round_half_even y'"
proof (cases "\<lfloor>y\<rfloor> = \<lfloor>y'\<rfloor>")
  case True
  with assms show ?thesis
    by (auto simp add: round_half_even_def Let_def)
next
  case False
  with assms have "\<lfloor>y\<rfloor> < \<lfloor>y'\<rfloor>" using floor_mono [OF assms] by linarith
  with round_half_even_ceil [of y] round_half_even_floor [of y'] show ?thesis by linarith
qed

lemma halvings_bounds:
  "1 \<le> y \<Longrightarrow> y < 2 ^ n \<Longrightarrow> 2 ^ halvings n y \<le> y \<and> y < 2 ^ Suc (halvings n y)"
proof (induction n arbitrary: y)
  case 0
  then show ?case by simp
next
  case (Suc n)
  show ?case
  proof (cases "2 \<le> y")
    case True
    then have "1 \<le> y / 2" by simp
    moreover from Suc.prems(2) have "y / 2 < 2 ^ n" by simp
    ultimately have "2 ^ halvings n (y / 2) \<le> y / 2 \<and> y / 2 < 2 ^ Suc (halvings n (y / 2))"
      by (rule Suc.IH)
    with True show ?thesis by simp
  next
    case False
    with Suc.prems(1) show ?thesis by simp
  qed
qed

lemma doublings_bounds:
  "0 < y \<Longrightarrow> y < 1 \<Longrightarrow> 1 \<le> y * 2 ^ n \<Longrightarrow>
     1 \<le> y * 2 ^ doublings n y \<and> y * 2 ^ doublings n y < 2 \<and> doublings n y \<le> n"
proof (induction n arbitrary: y)
  case 0
  then show ?case by simp
next
  case (Suc n)
  show ?case
  proof (cases "2 * y < 1")
    case True
    from Suc.prems(1) have "0 < 2 * y" by simp
    moreover from Suc.prems(3) have "1 \<le> (2 * y) * 2 ^ n" by (simp add: mult.assoc mult.left_commute)
    ultimately have "1 \<le> (2 * y) * 2 ^ doublings n (2 * y) \<and>
        (2 * y) * 2 ^ doublings n (2 * y) < 2 \<and> doublings n (2 * y) \<le> n"
      using True by (intro Suc.IH)
    with Suc.prems(2) show ?thesis by (simp add: mult.assoc mult.left_commute)
  next
    case False
    have "doublings (Suc n) y = Suc (doublings n (2 * y))" using Suc.prems(2) by simp
    also have "doublings n (2 * y) = 0" using False by (cases n) simp_all
    finally have d: "doublings (Suc n) y = Suc 0" .
    from False Suc.prems(2) show ?thesis unfolding d by simp
  qed
qed


lemma exponent_subnormal: "a < 2 powi emin \<Longrightarrow> exponent emin emax a = emin"
  by (simp add: exponent_def)

lemma exponent_normal:
  assumes "emin \<le> 0" and "0 \<le> emax" and lo: "2 powi emin \<le> a" and hi: "a < 2 powi (emax + 1)"
  shows "2 powi (exponent emin emax a) \<le> a \<and> a < 2 powi (exponent emin emax a + 1) \<and>
         emin \<le> exponent emin emax a"
proof (cases "1 \<le> a")
  case True
  let ?k = "halvings (nat (emax + 1)) a"
  have e: "exponent emin emax a = int ?k" using lo True by (simp add: exponent_def)
  from hi assms(2) have "a < 2 ^ nat (emax + 1)" by (simp add: power_int_def)
  with True have "2 ^ ?k \<le> a \<and> a < 2 ^ Suc ?k" by (rule halvings_bounds)
  moreover have "(2::real) powi (int ?k + 1) = 2 ^ Suc ?k"
    by (simp add: power_int_add)
  ultimately show ?thesis using assms(1) by (simp add: e)
next
  case False
  let ?n = "nat (- emin)"
  let ?k = "doublings ?n a"
  have e: "exponent emin emax a = - int ?k" using lo False by (simp add: exponent_def)
  have pos: "0 < a" using lo by (rule less_le_trans [rotated]) simp
  have "emin \<noteq> 0" using lo False by auto
  with assms(1) have neg: "emin < 0" by simp
  then have "(2::real) powi emin = 1 / 2 ^ ?n"
    by (simp add: power_int_def power_inverse [symmetric] inverse_eq_divide divide_simps)
  with lo have "1 \<le> a * 2 ^ ?n" by (simp add: divide_simps)
  with pos False have b: "1 \<le> a * 2 ^ ?k \<and> a * 2 ^ ?k < 2 \<and> ?k \<le> ?n"
    by (intro doublings_bounds) simp_all
  have p1: "(2::real) powi (- int ?k) = 1 / 2 ^ ?k"
    by (simp add: power_int_minus inverse_eq_divide)
  have "(2::real) powi (1 - int ?k) = 2 powi 1 / 2 powi (int ?k)"
    by (rule power_int_diff) simp
  then have p2: "(2::real) powi (1 - int ?k) = 2 / 2 ^ ?k"
    by simp
  from b have "1 / 2 ^ ?k \<le> a" "a < 2 / 2 ^ ?k" by (simp_all add: divide_simps)
  moreover have "emin \<le> - int ?k"
  proof -
    from b have "?k \<le> ?n" by blast
    with neg show ?thesis by arith
  qed
  ultimately show ?thesis by (simp add: e p1 p2)
qed

lemma exponent_ge_emin:
  assumes "emin \<le> 0" and "0 \<le> emax" and "a < 2 powi (emax + 1)"
  shows "emin \<le> exponent emin emax a"
proof (cases "a < 2 powi emin")
  case True
  then show ?thesis by (simp add: exponent_subnormal)
next
  case False
  then have "2 powi emin \<le> a" by simp
  from exponent_normal [OF assms(1,2) this assms(3)] show ?thesis by simp
qed

lemma exponent_upper:
  assumes "emin \<le> 0" and "0 \<le> emax" and "a < 2 powi (emax + 1)"
  shows "a < 2 powi (exponent emin emax a + 1)"
proof (cases "a < 2 powi emin")
  case True
  have "(2::real) powi emin \<le> 2 powi (emin + 1)" by (rule power_int_increasing) simp_all
  with True show ?thesis by (simp add: exponent_subnormal)
next
  case False
  then have "2 powi emin \<le> a" by simp
  from exponent_normal [OF assms(1,2) this assms(3)] show ?thesis by simp
qed

lemma exponent_mono:
  assumes "emin \<le> 0" and "0 \<le> emax" and "a \<le> a'" and "a' < 2 powi (emax + 1)"
  shows "exponent emin emax a \<le> exponent emin emax a'"
proof (cases "a < 2 powi emin")
  case True
  with exponent_ge_emin [OF assms(1,2,4)] show ?thesis by (simp add: exponent_subnormal)
next
  case False
  then have lo: "2 powi emin \<le> a" by simp
  have hi: "a < 2 powi (emax + 1)" using assms(3,4) by simp
  from exponent_normal [OF assms(1,2) lo hi] have "2 powi (exponent emin emax a) \<le> a" by simp
  also note assms(3)
  also note exponent_upper [OF assms(1,2,4)]
  finally have lt: "(2::real) powi (exponent emin emax a) < 2 powi (exponent emin emax a' + 1)" .
  show ?thesis
  proof (rule ccontr)
    assume "\<not> exponent emin emax a \<le> exponent emin emax a'"
    then have "exponent emin emax a' + 1 \<le> exponent emin emax a" by simp
    then have "(2::real) powi (exponent emin emax a' + 1) \<le> 2 powi (exponent emin emax a)"
      by (rule power_int_increasing) simp
    with lt show False by simp
  qed
qed

lemma fl_round_magnitude:
  "fl_round p emin emax x =
     (if 2 powi (emax + 1) \<le> \<bar>x\<bar> \<or> 2 powi (emax + 1) \<le> magnitude p emin emax \<bar>x\<bar> then None
      else Some (sgn x * magnitude p emin emax \<bar>x\<bar>))"
  by (simp add: fl_round_def magnitude_def Let_def)

lemma magnitude_nonneg: "0 \<le> a \<Longrightarrow> 0 \<le> magnitude p emin emax a"
proof -
  assume a: "0 \<le> a"
  let ?q = "(2::real) powi (exponent emin emax a - int p + 1)"
  have "0 < ?q" by simp
  with a have "(0::real) \<le> a / ?q" by simp
  then have "of_int 0 \<le> a / ?q" by simp
  then have "0 \<le> round_half_even (a / ?q)" by (rule round_half_even_ge_int)
  then show ?thesis by (simp add: magnitude_def)
qed

lemma magnitude_mono:
  assumes p: "1 \<le> p" and "emin \<le> 0" and "0 \<le> emax"
    and a: "0 \<le> a" and aa: "a \<le> a'" and hi: "a' < 2 powi (emax + 1)"
  shows "magnitude p emin emax a \<le> magnitude p emin emax a'"
proof -
  let ?e = "exponent emin emax a" and ?e' = "exponent emin emax a'"
  let ?q = "(2::real) powi (?e - int p + 1)" and ?q' = "(2::real) powi (?e' - int p + 1)"
  have q: "0 < ?q" "0 < ?q'" by simp_all
  have hi_a: "a < 2 powi (emax + 1)" using aa hi by simp
  have ee: "?e \<le> ?e'" by (rule exponent_mono [OF assms(2,3) aa hi])
  show ?thesis
  proof (cases "?e = ?e'")
    case True
    from aa q have "a / ?q \<le> a' / ?q" by (simp add: divide_right_mono)
    then have "round_half_even (a / ?q) \<le> round_half_even (a' / ?q)"
      by (rule round_half_even_mono)
    then have "(of_int (round_half_even (a / ?q)) :: real) \<le> of_int (round_half_even (a' / ?q))"
      by simp
    with q show ?thesis unfolding magnitude_def True [symmetric]
      by (simp add: mult_right_mono)
  next
    case False
    with ee have lt: "?e + 1 \<le> ?e'" by simp
    have normal': "2 powi emin \<le> a'"
    proof (rule ccontr)
      assume "\<not> 2 powi emin \<le> a'"
      then have "?e' = emin" by (simp add: exponent_subnormal)
      with exponent_ge_emin [OF assms(2,3) hi_a] lt show False by simp
    qed
    from exponent_normal [OF assms(2,3) normal' hi] have lo': "2 powi ?e' \<le> a'" by simp
    have up: "a < 2 powi (?e + 1)" by (rule exponent_upper [OF assms(2,3) hi_a])
    have d1: "(2::real) powi (?e + 1) / ?q = of_int (2 ^ p)"
    proof -
      have "(2::real) powi (?e + 1) / ?q = 2 powi ((?e + 1) - (?e - int p + 1))"
        by (rule power_int_diff [symmetric]) simp
      also have "(?e + 1) - (?e - int p + 1) = int p" by simp
      finally show ?thesis by simp
    qed
    have d2: "(2::real) powi ?e' / ?q' = of_int (2 ^ (p - 1))"
    proof -
      have "(2::real) powi ?e' / ?q' = 2 powi (?e' - (?e' - int p + 1))"
        by (rule power_int_diff [symmetric]) simp
      also have "?e' - (?e' - int p + 1) = int (p - 1)" using p by simp
      finally show ?thesis by simp
    qed
    have "a / ?q \<le> 2 powi (?e + 1) / ?q" using up q by (simp add: divide_right_mono)
    then have "a / ?q \<le> of_int (2 ^ p)" by (simp only: d1)
    then have "round_half_even (a / ?q) \<le> 2 ^ p" by (rule round_half_even_le_int)
    then have "(of_int (round_half_even (a / ?q)) :: real) \<le> of_int (2 ^ p)" by (simp only: of_int_le_iff)
    then have "magnitude p emin emax a \<le> of_int (2 ^ p) * ?q"
      unfolding magnitude_def using q by (simp only: mult_right_mono less_imp_le)
    also have "of_int (2 ^ p) * ?q = 2 powi (?e + 1)"
      using d1 q by (simp add: field_simps)
    finally have m1: "magnitude p emin emax a \<le> 2 powi (?e + 1)" .
    have "2 powi ?e' / ?q' \<le> a' / ?q'" using lo' q by (simp add: divide_right_mono)
    then have "of_int (2 ^ (p - 1)) \<le> a' / ?q'" by (simp only: d2)
    then have "2 ^ (p - 1) \<le> round_half_even (a' / ?q')" by (rule round_half_even_ge_int)
    then have "(of_int (2 ^ (p - 1)) :: real) \<le> of_int (round_half_even (a' / ?q'))"
      by (simp only: of_int_le_iff)
    then have "of_int (2 ^ (p - 1)) * ?q' \<le> magnitude p emin emax a'"
      unfolding magnitude_def using q by (simp only: mult_right_mono less_imp_le)
    moreover have "of_int (2 ^ (p - 1)) * ?q' = 2 powi ?e'"
      using d2 q by (simp add: field_simps)
    ultimately have m2: "2 powi ?e' \<le> magnitude p emin emax a'" by simp
    have "(2::real) powi (?e + 1) \<le> 2 powi ?e'" using lt by (rule power_int_increasing) simp
    with m1 m2 show ?thesis by linarith
  qed
qed

lemma magnitude_zero [simp]: "magnitude p emin emax 0 = 0"
  by (simp add: magnitude_def round_half_even_def)

lemma fl_round_mono:
  assumes "1 \<le> p" and "emin \<le> 0" and "0 \<le> emax"
    and a: "0 \<le> a" and aa: "a \<le> a'" and r': "fl_round p emin emax a' = Some r'"
  shows "\<exists>r. fl_round p emin emax a = Some r \<and> 0 \<le> r \<and> r \<le> r'"
proof -
  have a': "0 \<le> a'" using a aa by simp
  from r' a' have hi: "a' < 2 powi (emax + 1)" and mhi: "magnitude p emin emax a' < 2 powi (emax + 1)"
    and val': "r' = sgn a' * magnitude p emin emax a'"
    by (auto simp add: fl_round_magnitude split: if_splits)
  have m: "magnitude p emin emax a \<le> magnitude p emin emax a'"
    by (rule magnitude_mono [OF assms(1,2,3) a aa hi])
  have s: "sgn a * magnitude p emin emax a = magnitude p emin emax a"
    using a by (cases "a = 0") (simp_all add: sgn_if)
  have s': "r' = magnitude p emin emax a'"
  proof (cases "a' = 0")
    case True
    then show ?thesis using val' by simp
  next
    case False
    with a' val' show ?thesis by (simp add: sgn_if)
  qed
  from a aa hi m mhi have "fl_round p emin emax a = Some (sgn a * magnitude p emin emax a)"
    by (simp add: fl_round_magnitude)
  then have "fl_round p emin emax a = Some (magnitude p emin emax a)"
    by (simp only: s)
  moreover have "magnitude p emin emax a \<le> r'" using m by (simp only: s')
  ultimately show ?thesis using magnitude_nonneg [OF a, of p emin emax] by blast
qed

lemma binary64_mono:
  assumes "0 \<le> x" and "x \<le> y" and "binary64 y = Some r'"
  shows "\<exists>r. binary64 x = Some r \<and> 0 \<le> r \<and> r \<le> r'"
  using assms(3) unfolding binary64_def
  by (intro fl_round_mono [OF _ _ _ assms(1,2)]) simp_all



lemma binary64_one: "binary64 1 = Some 1"
  by (simp add: binary64_def fl_eval)

lemma float_of_int_mono:
  assumes "1 \<le> a" and "a \<le> b" and "float_of_int b = Inr sb"
  shows "\<exists>sa. float_of_int a = Inr sa \<and> 1 \<le> sa \<and> sa \<le> sb"
proof -
  from assms(3) have b: "binary64 (of_int b) = Some sb"
    by (simp add: float_of_int_def split: option.splits)
  have "(0::real) \<le> of_int a" "(of_int a :: real) \<le> of_int b" using assms(1,2) by simp_all
  from binary64_mono [OF this b] obtain sa where
    sa: "binary64 (of_int a) = Some sa" "sa \<le> sb" by blast
  have "(0::real) \<le> 1" "(1::real) \<le> of_int a" using assms(1) by simp_all
  from binary64_mono [OF this sa(1)] have "1 \<le> sa" by (simp add: binary64_one)
  with sa show ?thesis by (simp add: float_of_int_def)
qed

lemma fl_round_minus:
  "fl_round p emin emax (- x) = map_option uminus (fl_round p emin emax x)"
  by (simp add: fl_round_def Let_def)

lemma binary64_zero: "binary64 0 = Some 0"
  by (simp add: binary64_def fl_eval)

lemma float_of_int_zero: "float_of_int 0 = Inr 0"
  by (simp add: float_of_int_def binary64_zero)

lemma float_of_int_nonzero:
  assumes "float_of_int n = Inr d" and "n \<noteq> 0"
  shows "d \<noteq> 0"
proof (cases "1 \<le> n")
  case True
  from float_of_int_mono [OF True order_refl assms(1)] assms(1) show ?thesis by auto
next
  case False
  with assms(2) have n: "1 \<le> - n" by simp
  from assms(1) have "binary64 (of_int n) = Some d"
    by (simp add: float_of_int_def split: option.splits)
  then have "binary64 (- of_int n) = Some (- d)"
    by (simp add: binary64_def fl_round_minus)
  then have "float_of_int (- n) = Inr (- d)" by (simp add: float_of_int_def)
  from float_of_int_mono [OF n order_refl this] this show ?thesis by auto
qed

lemma rounding_values:
  "binary64 (1 / 4) = Some (1 / 4)" "binary64 (1 / 2) = Some (1 / 2)"
  "binary32 (1 / 4) = Some (1 / 4)" "binary32 (1 / 2) = Some (1 / 2)"
  "binary64 2 = Some 2" "binary64 1 = Some 1"
  "binary64 (3602879701896397 / 9007199254740992) = Some (3602879701896397 / 9007199254740992)"
  "binary64 (3602879701896397 / 18014398509481984) = Some (3602879701896397 / 18014398509481984)"
  "binary64 (5404319552844595 / 9007199254740992) = Some (5404319552844595 / 9007199254740992)"
  "binary32 (3602879701896397 / 18014398509481984) = Some (13421773 / 67108864)"
  "binary32 (5404319552844595 / 9007199254740992) = Some (5033165 / 8388608)"
  "binary64 3 = Some 3"
  "binary64 (3602879701896397 / 27021597764222976) =
     Some (4803839602528529 / 36028797018963968)"
  "binary64 (4803839602528529 / 36028797018963968) =
     Some (4803839602528529 / 36028797018963968)"
  by (simp_all add: binary64_def binary32_def fl_eval)

text \<open>
  The engine refuses a Python float beyond the finite range of the element type; the
  largest \<open>float32\<close> number itself is converted.
\<close>

lemma to_dtype_range:
  "to_dtype float32 (10 ^ 39) = Inl RuntimeError"
  "to_dtype float32 ((2 ^ 24 - 1) * 2 ^ 104 + 1) = Inl RuntimeError"
  "to_dtype float32 ((2 ^ 24 - 1) * 2 ^ 104) = Inr ((2 ^ 24 - 1) * 2 ^ 104)"
  "to_dtype float64 (2 ^ 130) = Inr (2 ^ 130)"
  by (simp_all add: to_dtype_def dtype_max_def binary64_def binary32_def fl_eval)

section \<open>Construction: properties\<close>

text \<open>
  Claim C8, as stated, has \<open>LabelSmoothing\<close> fail at construction for a size below 3. The
  constructor has no check: with size 2 it returns the object.
\<close>

theorem LabelSmoothing_init_size_2:
  "LabelSmoothing_init 2 0 0 =
     Inr \<lparr>padding_idx = 0, confidence = 1, smoothing = 0, size' = 2, true_dist = None\<rparr>"
  by (simp add: LabelSmoothing_init_def double_def binary64_one)

text \<open>
  Claim C8, amended. Constructing \<open>MultiHeadedAttention\<close> with \<open>d_model % h != 0\<close> fails at
  construction with an AssertionError. Constructing \<open>LabelSmoothing\<close> returns the object for
  every size; with size 2 the failure comes in \<open>forward\<close>, as the ZeroDivisionError of
  \<open>smoothing / (size - 2)\<close>.
\<close>

theorem construction_failures:
  "(heads \<noteq> 0 \<and> d_model mod heads \<noteq> 0 \<longrightarrow>
      MultiHeadedAttention_init heads d_model p = Inl AssertionError) \<and>
   (\<exists>self. LabelSmoothing_init sz pad s = Inr self \<and> size' self = sz) \<and>
   (LabelSmoothing_init 2 pad s = Inr self \<and> dim1 x = 2 \<longrightarrow>
      LabelSmoothing_forward self x target = Inl ZeroDivisionError)"
  by (auto simp add: MultiHeadedAttention_init_def LabelSmoothing_init_def
      LabelSmoothing_forward_def float_of_int_zero)

theorem construction_failures_witness:
  "(8::int) \<noteq> 0 \<and> (100::int) mod 8 \<noteq> 0 \<and>
   MultiHeadedAttention_init 8 100 (1 / 10) = Inl AssertionError \<and>
   LabelSmoothing_init 2 0 0 =
     Inr \<lparr>padding_idx = 0, confidence = 1, smoothing = 0, size' = 2, true_dist = None\<rparr> \<and>
   dim1 \<lparr>dim0 = 1, dim1 = 2, dtype = float32, rows = [[0, 0]]\<rparr> = 2 \<and>
   LabelSmoothing_forward
     \<lparr>padding_idx = 0, confidence = 1, smoothing = 0, size' = 2, true_dist = None\<rparr>
     \<lparr>dim0 = 1, dim1 = 2, dtype = float32, rows = [[0, 0]]\<rparr> [1] = Inl ZeroDivisionError"
proof -
  have a: "(8::int) \<noteq> 0 \<and> (100::int) mod 8 \<noteq> 0" by simp
  have b: "LabelSmoothing_init 2 0 0 =
     Inr \<lparr>padding_idx = 0, confidence = 1, smoothing = 0, size' = 2, true_dist = None\<rparr>"
    by (simp add: LabelSmoothing_init_def double_def binary64_one)
  have c: "dim1 \<lparr>dim0 = 1, dim1 = 2, dtype = float32, rows = [[0, 0]]\<rparr> = 2" by simp
  from a b c
    construction_failures [of 8 100 "1 / 10" 2 0 0
      "\<lparr>padding_idx = 0, confidence = 1, smoothing = 0, size' = 2, true_dist = None\<rparr>"
      "\<lparr>dim0 = 1, dim1 = 2, dtype = float32, rows = [[0, 0]]\<rparr>" "[1]"]
  show ?thesis by simp
qed

section \<open>Learning-rate schedule: properties\<close>










lemma powr_split:
  fixes x :: real
  assumes "0 < x"
  shows "x * x powr (- (3 / 2)) = x powr (- (1 / 2))"
proof -
  have "x powr (- (1 / 2)) = x powr (1 + - (3 / 2))" by simp
  also have "\<dots> = x powr 1 * x powr (- (3 / 2))" by (rule powr_add)
  also have "x powr 1 = x" using assms by simp
  finally show ?thesis by simp
qed

lemma warmup_branch:
  fixes x w :: real
  assumes "0 < x" "x \<le> w"
  shows "x * w powr (- (3 / 2)) \<le> x powr (- (1 / 2))"
proof -
  have "w powr (- (3 / 2)) \<le> x powr (- (3 / 2))"
    using assms by (intro powr_mono2') simp_all
  then have "x * w powr (- (3 / 2)) \<le> x * x powr (- (3 / 2))"
    using assms by (simp add: mult_left_mono)
  then show ?thesis using assms by (simp only: powr_split)
qed

lemma decay_branch:
  fixes x w :: real
  assumes "0 < w" "w \<le> x"
  shows "x powr (- (1 / 2)) \<le> x * w powr (- (3 / 2))"
proof -
  have x: "0 < x" using assms by simp
  have "x powr (- (3 / 2)) \<le> w powr (- (3 / 2))"
    using assms by (intro powr_mono2') simp_all
  then have "x * x powr (- (3 / 2)) \<le> x * w powr (- (3 / 2))"
    using x by (simp add: mult_left_mono)
  then show ?thesis using x by (simp only: powr_split)
qed








text \<open>
  The conversion of the step to a double is part of the model: a step beyond the double
  range raises OverflowError, and two steps with the same double have the same rate.
\<close>

lemma float_of_int_large: "float_of_int (10 ^ 400) = Inl OverflowError"
  by (simp add: float_of_int_def binary64_def fl_round_def power_int_def)

lemma rate_conversion_fails:
  assumes "s \<noteq> 0" and "float_of_int s = Inl err" and "pow_py pw m (- (1 / 2)) = Inr A"
  shows "rate pw s m f w = Inl err"
  using assms by (simp add: rate_def decay_term_def pow_py_def as_float_def)

lemma rate_large_step:
  assumes "pow_py pw m (- (1 / 2)) = Inr A"
  shows "rate pw (10 ^ 400) m f w = Inl OverflowError"
  by (rule rate_conversion_fails [OF _ float_of_int_large assms]) simp

lemma float_of_int_rounds: "float_of_int (2 ^ 53 + 1) = float_of_int (2 ^ 53)"
  by (simp add: float_of_int_def binary64_def fl_eval)

lemma rate_nonzero:
  "s \<noteq> 0 \<Longrightarrow> rate pw s m f w =
     (case pow_py pw m (- (1 / 2)) of
        Inl err \<Rightarrow> Inl err
      | Inr a \<Rightarrow>
          (case decay_term pw s of
             Inl err \<Rightarrow> Inl err
           | Inr b \<Rightarrow>
               (case warmup_term pw s w of
                  Inl err \<Rightarrow> Inl err
                | Inr c \<Rightarrow>
                    (case min_py b c of
                       Inl err \<Rightarrow> Inl err
                     | Inr mn \<Rightarrow>
                         (case as_float f of
                            Inl err \<Rightarrow> Inl err
                          | Inr F \<Rightarrow> Inr (fmul (Float F) (fmul a mn)))))))"
  by (simp add: rate_def)

lemma rate_conversion_equal:
  assumes "s \<noteq> 0" and "s' \<noteq> 0" and "float_of_int s = float_of_int s'"
  shows "rate pw s m f w = rate pw s' m f w"
proof -
  have d: "decay_term pw s = decay_term pw s'"
    using assms(3) by (simp add: decay_term_def pow_py_def as_float_def)
  have wt: "warmup_term pw s w = warmup_term pw s' w"
    unfolding warmup_term_def assms(3) ..
  show ?thesis
    unfolding rate_nonzero [OF assms(1)] rate_nonzero [OF assms(2)] d wt ..
qed

lemma rate_same_double: "rate pw (2 ^ 53 + 1) m f w = rate pw (2 ^ 53) m f w"
  by (rule rate_conversion_equal [OF _ _ float_of_int_rounds]) simp_all




section \<open>Label smoothing: properties\<close>

lemma scatter1_Inr:
  "scatter1 t idx v = Inr t' \<Longrightarrow>
     length t' = length t \<and> length idx \<le> length t \<and>
     (\<forall>i < length idx. 0 \<le> idx ! i \<and> idx ! i < len (t ! i) \<and> t' ! i = (t ! i)[nat (idx ! i) := v])"
proof (induction t idx v arbitrary: t' rule: scatter1.induct)
  case (1 t v)
  then show ?case by simp
next
  case (2 i idx v)
  then show ?case by simp
next
  case (3 r t i idx v)
  from "3.prems" obtain t'' where
    ok: "0 \<le> i" "i < len r" and rec: "scatter1 t idx v = Inr t''" and t': "t' = r[nat i := v] # t''"
    by (auto split: if_splits sum.splits)
  from "3.IH" [OF _ rec] ok have ih:
    "length t'' = length t \<and> length idx \<le> length t \<and>
     (\<forall>k < length idx. 0 \<le> idx ! k \<and> idx ! k < len (t ! k) \<and> t'' ! k = (t ! k)[nat (idx ! k) := v])"
    by simp
  show ?case
  proof (intro conjI allI impI)
    fix k assume k: "k < length (i # idx)"
    show "0 \<le> (i # idx) ! k" using k ok ih by (cases k) auto
    show "(i # idx) ! k < len ((r # t) ! k)" using k ok ih by (cases k) auto
    show "t' ! k = ((r # t) ! k)[nat ((i # idx) ! k) := v]" using k ok ih t' by (cases k) auto
  qed (use ih t' in auto)
qed

lemma scatter1_entries:
  "scatter1 t idx v = Inr t' \<Longrightarrow> \<forall>r' \<in> set t'. \<exists>r \<in> set t. set r' \<subseteq> insert v (set r)"
proof (induction t idx v arbitrary: t' rule: scatter1.induct)
  case (1 t v)
  then show ?case by auto
next
  case (2 i idx v)
  then show ?case by simp
next
  case (3 r t i idx v)
  from "3.prems" obtain t'' where
    ok: "0 \<le> i" "i < len r" and rec: "scatter1 t idx v = Inr t''" and t': "t' = r[nat i := v] # t''"
    by (auto split: if_splits sum.splits)
  from "3.IH" [OF _ rec] ok have ih: "\<forall>r' \<in> set t''. \<exists>r \<in> set t. set r' \<subseteq> insert v (set r)"
    by simp
  have "set (r[nat i := v]) \<subseteq> insert v (set r)" by (rule set_update_subset_insert)
  with ih t' show ?case by auto
qed

lemma set_nonzero: "set (nonzero bs) = {i. i < length bs \<and> bs ! i}"
  by (auto simp add: nonzero_def in_set_enumerate_eq image_iff)

lemma index_fill0_Inr:
  assumes "index_fill0 t idx v = Inr t'" "i < length t"
  shows "length t' = length t"
    and "t' ! i = (if i \<in> set idx then map (\<lambda>_. v) (t ! i) else t ! i)"
  using assms by (auto simp add: index_fill0_def nth_enumerate_eq split: if_splits)

lemma set_column_Inr:
  assumes "set_column n t p v = Inr t'"
  shows "0 \<le> (if p < 0 then int n + p else p)"
    and "(if p < 0 then int n + p else p) < int n"
    and "t' = map (\<lambda>r. r[nat (if p < 0 then int n + p else p) := v]) t"
  using assms by (auto simp add: set_column_def Let_def split: if_splits)

lemma sum_list_update_real:
  fixes xs :: "real list"
  shows "k < length xs \<Longrightarrow> sum_list (xs[k := x]) = sum_list xs + x - xs ! k"
proof (induction xs arbitrary: k)
  case Nil
  then show ?case by simp
next
  case (Cons a xs)
  then show ?case by (cases k) simp_all
qed

lemma smoothed_row:
  fixes v c :: real
  assumes "t < n" "p < n"
  shows "(replicate n v)[t := c, p := 0] ! p = 0"
    and "t \<noteq> p \<Longrightarrow> (replicate n v)[t := c, p := 0] ! t = c"
    and "\<forall>j < n. j \<noteq> t \<and> j \<noteq> p \<longrightarrow> (replicate n v)[t := c, p := 0] ! j = v"
    and "t \<noteq> p \<Longrightarrow> sum_list ((replicate n v)[t := c, p := 0]) = c + (real n - 2) * v"
proof -
  show "(replicate n v)[t := c, p := 0] ! p = 0"
    and "t \<noteq> p \<Longrightarrow> (replicate n v)[t := c, p := 0] ! t = c"
    and "\<forall>j < n. j \<noteq> t \<and> j \<noteq> p \<longrightarrow> (replicate n v)[t := c, p := 0] ! j = v"
    using assms by simp_all
  assume ne: "t \<noteq> p"
  have "sum_list ((replicate n v)[t := c, p := 0]) =
          sum_list ((replicate n v)[t := c]) + 0 - (replicate n v)[t := c] ! p"
    using assms by (simp add: sum_list_update_real)
  also have "(replicate n v)[t := c] ! p = v" using assms ne by simp
  also have "sum_list ((replicate n v)[t := c]) = sum_list (replicate n v) + c - replicate n v ! t"
    using assms by (simp add: sum_list_update_real)
  also have "replicate n v ! t = v" using assms by simp
  also have "sum_list (replicate n v) = real n * v" by (simp add: sum_list_replicate)
  finally show "sum_list ((replicate n v)[t := c, p := 0]) = c + (real n - 2) * v"
    by (simp add: algebra_simps)
qed

lemma forward_Inr:
  assumes ok: "LabelSmoothing_forward self x target = Inr (self', loss)"
  obtains d v c td1 td2 td3 where
    "int (dim1 x) = size' self"
    "float_of_int (size' self - 2) = Inr d" "d \<noteq> 0"
    "to_dtype (tensor2.dtype x) (double (smoothing self / d)) = Inr v"
    "to_dtype (tensor2.dtype x) (confidence self) = Inr c"
    "scatter1 (full (dim0 x) (dim1 x) v) target c = Inr td1"
    "set_column (dim1 x) td1 (padding_idx self) 0 = Inr td2"
    "index_fill0 td2 (nonzero (map (\<lambda>t. t = padding_idx self) target)) 0 = Inr td3"
    "self' = self\<lparr>true_dist := Some td3\<rparr>" "loss = KLDivLoss_sum (rows x) td3"
  using ok unfolding LabelSmoothing_forward_def Let_def
  by (auto split: if_splits sum.splits)

lemma forward_entries:
  assumes sc: "scatter1 (full n m v) target c = Inr td1"
    and col: "set_column m td1 pad 0 = Inr td2"
    and fill: "index_fill0 td2 ix 0 = Inr td3"
  shows "\<forall>r \<in> set td3. \<forall>u \<in> set r. u = 0 \<or> u = c \<or> u = v"
proof -
  have e1: "\<forall>r \<in> set td1. set r \<subseteq> {c, v}"
  proof
    fix r assume "r \<in> set td1"
    with scatter1_entries [OF sc] obtain r0 where
      "r0 \<in> set (full n m v)" "set r \<subseteq> insert c (set r0)" by blast
    moreover from this(1) have "set r0 \<subseteq> {v}" by (auto simp add: full_def)
    ultimately show "set r \<subseteq> {c, v}" by auto
  qed
  have e2: "\<forall>r \<in> set td2. set r \<subseteq> {0, c, v}"
  proof
    fix r assume r: "r \<in> set td2"
    let ?p = "nat (if pad < 0 then int m + pad else pad)"
    from set_column_Inr(3) [OF col] r obtain r1 where
      r1: "r1 \<in> set td1" "r = r1[?p := 0]" by auto
    have "set (r1[?p := 0]) \<subseteq> insert 0 (set r1)" by (rule set_update_subset_insert)
    moreover from e1 r1(1) have "set r1 \<subseteq> {c, v}" by blast
    ultimately have "set (r1[?p := 0]) \<subseteq> {0, c, v}" by blast
    then show "set r \<subseteq> {0, c, v}" by (simp only: r1(2))
  qed
  show ?thesis
  proof (intro ballI)
    fix r u assume r: "r \<in> set td3" and u: "u \<in> set r"
    from fill have td3: "td3 = map (\<lambda>(i, r). if i \<in> set ix then map (\<lambda>_. 0) r else r)
        (enumerate 0 td2)"
      by (simp add: index_fill0_def split: if_splits)
    with r obtain i r2 where ir: "(i, r2) \<in> set (enumerate 0 td2)"
      and rr: "r = (if i \<in> set ix then map (\<lambda>_. 0) r2 else r2)" by auto
    from ir have "r2 \<in> set td2" by (auto simp add: in_set_enumerate_eq)
    with e2 have "set r2 \<subseteq> {0, c, v}" by blast
    with rr u show "u = 0 \<or> u = c \<or> u = v" by (auto split: if_splits)
  qed
qed

lemma KLDivLoss_sum_nonneg:
  assumes "\<forall>r \<in> set t. \<forall>u \<in> set r. 0 \<le> u"
  shows "KLDivLoss_sum x t =
     Finite (sum_list (map (\<lambda>(xr, tr).
        sum_list (map (\<lambda>(xv, tv). if tv = 0 then 0 else tv * (ln tv - xv)) (zip xr tr)))
        (zip x t)))"
proof -
  have "\<not> (\<exists>r \<in> set t. \<exists>v \<in> set r. v < 0)" using assms by (auto simp add: not_less)
  moreover have "kl_pointwise = (\<lambda>xv tv. if tv = 0 then 0 else tv * (ln tv - xv))"
    by (intro ext) (simp add: kl_pointwise_def)
  ultimately show ?thesis by (simp add: KLDivLoss_sum_def)
qed

lemma scatter1_succeeds:
  "length idx \<le> length t \<Longrightarrow>
   (\<forall>k < length idx. 0 \<le> idx ! k \<and> idx ! k < len (t ! k)) \<Longrightarrow>
   \<exists>t'. scatter1 t idx v = Inr t'"
proof (induction t idx v rule: scatter1.induct)
  case (1 t v)
  then show ?case by simp
next
  case (2 i idx v)
  then show ?case by simp
next
  case (3 r t i idx v)
  from "3.prems"(2) have hd: "0 \<le> i \<and> i < len r" by auto
  from "3.prems"(2) have tl: "\<forall>k < length idx. 0 \<le> idx ! k \<and> idx ! k < len (t ! k)"
    by auto
  from "3.prems"(1) have "length idx \<le> length t" by simp
  with "3.IH" hd tl obtain t' where "scatter1 t idx v = Inr t'" by blast
  with hd show ?case by simp
qed



lemma forward_succeeds:
  assumes "int (dim1 x) = size' self" and "size' self \<noteq> 2"
    and "float_of_int (size' self - 2) = Inr d"
    and "to_dtype (tensor2.dtype x) (double (smoothing self / d)) = Inr v"
    and "to_dtype (tensor2.dtype x) (confidence self) = Inr c"
    and "- size' self \<le> padding_idx self" and "padding_idx self < size' self"
    and "length target \<le> dim0 x"
    and "\<forall>t \<in> set target. 0 \<le> t \<and> t < size' self"
  shows "\<exists>r. LabelSmoothing_forward self x target = Inr r"
proof -
  let ?t0 = "full (dim0 x) (dim1 x) v"
  have d: "d \<noteq> 0" using float_of_int_nonzero [OF assms(3)] assms(2) by simp
  have "\<forall>k < length target. 0 \<le> target ! k \<and> target ! k < len (?t0 ! k)"
    using assms(1,8,9) by (auto simp add: full_def len_def)
  moreover have "length target \<le> length ?t0" using assms(8) by (simp add: full_def)
  ultimately obtain td1 where sc: "scatter1 ?t0 target c = Inr td1"
    using scatter1_succeeds by blast
  from scatter1_Inr [OF sc] have l1: "length td1 = dim0 x" by (simp add: full_def)
  let ?p = "if padding_idx self < 0 then int (dim1 x) + padding_idx self else padding_idx self"
  have "0 \<le> ?p \<and> ?p < int (dim1 x)" using assms(1,6,7) by auto
  then have col: "set_column (dim1 x) td1 (padding_idx self) 0 =
      Inr (map (\<lambda>r. r[nat ?p := 0]) td1)"
    by (simp add: set_column_def Let_def)
  define td2 where "td2 = map (\<lambda>r. r[nat ?p := 0]) td1"
  have l2: "length td2 = length td1" by (simp add: td2_def)
  note col = col [folded td2_def]
  have "\<forall>k \<in> set (nonzero (map (\<lambda>t. t = padding_idx self) target)). k < length td2"
    using l1 l2 assms(8) by (auto simp add: set_nonzero)
  then obtain td3 where
    "index_fill0 td2 (nonzero (map (\<lambda>t. t = padding_idx self) target)) 0 = Inr td3"
    by (auto simp add: index_fill0_def)
  with sc col assms(1,3,4,5) d show ?thesis
    by (simp add: LabelSmoothing_forward_def Let_def)
qed

lemmas forward_eval =
  LabelSmoothing_forward_def LabelSmoothing_init_def float_of_int_def to_dtype_def dtype_max_def
  double_def full_def set_column_def nonzero_def index_fill0_def len_def

lemma forward_example:
  "LabelSmoothing_forward
     \<lparr>padding_idx = 0, confidence = 1 / 2, smoothing = 1 / 2, size' = 4, true_dist = None\<rparr>
     \<lparr>dim0 = 2, dim1 = 4, dtype = float32, rows = [[0, 0, 0, 0], [0, 0, 0, 0]]\<rparr> [2, 0] =
   Inr (\<lparr>padding_idx = 0, confidence = 1 / 2, smoothing = 1 / 2, size' = 4,
          true_dist = Some [[0, 1 / 4, 1 / 2, 1 / 4], [0, 0, 0, 0]]\<rparr>,
        KLDivLoss_sum [[0, 0, 0, 0], [0, 0, 0, 0]] [[0, 1 / 4, 1 / 2, 1 / 4], [0, 0, 0, 0]])"
  by (simp add: forward_eval rounding_values Let_def numeral_2_eq_2 numeral_eq_Suc)


text \<open>
  Claim C3, as stated, has every row of a non-pad target hold exactly \<open>1 - s\<close> at the
  target class and \<open>s / (size - 2)\<close> at the other classes, and sum to 1. The soft targets
  are a clone of \<open>x\<close>: on a \<open>float32\<close> input, with size 4, pad id 0 and the smoothing 0.4
  (the double \<open>3602879701896397 / 2^53\<close>), the row of the target 2 holds the \<open>float32\<close>
  roundings of both numbers and sums to \<open>1 + 2^-25\<close>. On a \<open>float64\<close> input, with size 5,
  the quotient \<open>0.4 / 3\<close> is itself rounded and the row sums to \<open>1 - 2^-55\<close>. And a
  negative pad id names a column from the end: with size 3, pad id \<open>-1\<close> and smoothing
  0.5, the row of the target 2, which is not the pad id, holds 0 at the target class.
\<close>

theorem label_smoothing_not_exact:
  "LabelSmoothing_init 4 0 (3602879701896397 / 9007199254740992) =
     Inr \<lparr>padding_idx = 0, confidence = 5404319552844595 / 9007199254740992,
          smoothing = 3602879701896397 / 9007199254740992, size' = 4, true_dist = None\<rparr> \<and>
   LabelSmoothing_forward
     \<lparr>padding_idx = 0, confidence = 5404319552844595 / 9007199254740992,
      smoothing = 3602879701896397 / 9007199254740992, size' = 4, true_dist = None\<rparr>
     \<lparr>dim0 = 1, dim1 = 4, dtype = float32, rows = [[0, 0, 0, 0]]\<rparr> [2] =
   Inr (\<lparr>padding_idx = 0, confidence = 5404319552844595 / 9007199254740992,
          smoothing = 3602879701896397 / 9007199254740992, size' = 4,
          true_dist = Some [[0, 13421773 / 67108864, 5033165 / 8388608, 13421773 / 67108864]]\<rparr>,
        KLDivLoss_sum [[0, 0, 0, 0]]
          [[0, 13421773 / 67108864, 5033165 / 8388608, 13421773 / 67108864]]) \<and>
   (5033165 / 8388608 :: real) \<noteq> 1 - 3602879701896397 / 9007199254740992 \<and>
   (13421773 / 67108864 :: real) \<noteq> (3602879701896397 / 9007199254740992) / of_int (4 - 2) \<and>
   sum_list [0, 13421773 / 67108864, 5033165 / 8388608, 13421773 / 67108864 :: real] =
     1 + 1 / 2 ^ 25 \<and>
   LabelSmoothing_forward
     \<lparr>padding_idx = 0, confidence = 5404319552844595 / 9007199254740992,
      smoothing = 3602879701896397 / 9007199254740992, size' = 5, true_dist = None\<rparr>
     \<lparr>dim0 = 1, dim1 = 5, dtype = float64, rows = [[0, 0, 0, 0, 0]]\<rparr> [2] =
   Inr (\<lparr>padding_idx = 0, confidence = 5404319552844595 / 9007199254740992,
          smoothing = 3602879701896397 / 9007199254740992, size' = 5,
          true_dist = Some [[0, 4803839602528529 / 36028797018963968,
            5404319552844595 / 9007199254740992, 4803839602528529 / 36028797018963968,
            4803839602528529 / 36028797018963968]]\<rparr>,
        KLDivLoss_sum [[0, 0, 0, 0, 0]]
          [[0, 4803839602528529 / 36028797018963968,
            5404319552844595 / 9007199254740992, 4803839602528529 / 36028797018963968,
            4803839602528529 / 36028797018963968]]) \<and>
   sum_list [0, 4803839602528529 / 36028797018963968,
     5404319552844595 / 9007199254740992, 4803839602528529 / 36028797018963968,
     4803839602528529 / 36028797018963968 :: real] = 1 - 1 / 2 ^ 55 \<and>
   LabelSmoothing_init 3 (- 1) (1 / 2) =
     Inr \<lparr>padding_idx = - 1, confidence = 1 / 2, smoothing = 1 / 2, size' = 3,
          true_dist = None\<rparr> \<and>
   LabelSmoothing_forward
     \<lparr>padding_idx = - 1, confidence = 1 / 2, smoothing = 1 / 2, size' = 3, true_dist = None\<rparr>
     \<lparr>dim0 = 1, dim1 = 3, dtype = float64, rows = [[0, 0, 0]]\<rparr> [2] =
   Inr (\<lparr>padding_idx = - 1, confidence = 1 / 2, smoothing = 1 / 2, size' = 3,
          true_dist = Some [[1 / 2, 1 / 2, 0]]\<rparr>,
        KLDivLoss_sum [[0, 0, 0]] [[1 / 2, 1 / 2, 0]])"
  by (simp add: forward_eval rounding_values Let_def numeral_2_eq_2 numeral_eq_Suc)

text \<open>
  Claim C3, amended. Let the object be built by the constructor with size \<open>sz\<close>, pad id
  \<open>pad\<close> and smoothing \<open>s\<close>, and let \<open>forward\<close> return on \<open>x\<close> and the targets. Write \<open>c\<close>
  for the double \<open>1.0 - s\<close> and \<open>v\<close> for the double \<open>s / (sz - 2)\<close>, both converted to
  the element type of \<open>x\<close>, and \<open>p\<close> for the pad column: \<open>pad\<close>, counted from the end when
  negative. Then the stored soft targets have one row per row of \<open>x\<close>; every target is a
  class; the row of a target equal to the pad id is all zero; the row of any other target
  holds 0 at the pad column, \<open>c\<close> at the target class unless that is the pad column, and
  \<open>v\<close> at every other class; with the target class off the pad column it sums to
  \<open>c + (sz - 2) * v\<close>, which is 1 when both conversions are exact. The returned loss is the
  sum-reduced KL divergence of \<open>x\<close> and these soft targets: for \<open>c\<close> and \<open>v\<close> not negative,
  the sum of \<open>t * (ln t - x)\<close> over the entries with a target \<open>t\<close> other than 0.
  (\<open>forward_succeeds\<close> shows that \<open>forward\<close> does return on a well-shaped input.)
\<close>

theorem label_smoothing_soft_targets:
  assumes init: "LabelSmoothing_init sz pad s = Inr self"
    and fw: "LabelSmoothing_forward self x target = Inr (self', loss)"
    and i: "i < length target"
  shows "\<exists>td d c v p.
           true_dist self' = Some td \<and> int (dim1 x) = sz \<and>
           float_of_int (sz - 2) = Inr d \<and>
           to_dtype (tensor2.dtype x) (double (1 - s)) = Inr c \<and>
           to_dtype (tensor2.dtype x) (double (s / d)) = Inr v \<and>
           p = (if pad < 0 then sz + pad else pad) \<and> 0 \<le> p \<and> p < sz \<and>
           length td = dim0 x \<and> length (td ! i) = dim1 x \<and>
           0 \<le> target ! i \<and> target ! i < sz \<and>
           (target ! i = pad \<longrightarrow> (\<forall>j < dim1 x. td ! i ! j = 0)) \<and>
           (target ! i \<noteq> pad \<longrightarrow>
              td ! i ! nat p = 0 \<and>
              (target ! i \<noteq> p \<longrightarrow> td ! i ! nat (target ! i) = c) \<and>
              (\<forall>j < dim1 x. j \<noteq> nat (target ! i) \<and> j \<noteq> nat p \<longrightarrow> td ! i ! j = v) \<and>
              (target ! i \<noteq> p \<longrightarrow> sum_list (td ! i) = c + (of_int sz - 2) * v) \<and>
              (target ! i \<noteq> p \<and> c = 1 - s \<and> v = s / of_int (sz - 2) \<longrightarrow>
                 sum_list (td ! i) = 1)) \<and>
           loss = KLDivLoss_sum (rows x) td \<and>
           (0 \<le> c \<and> 0 \<le> v \<longrightarrow>
              loss = Finite (sum_list (map (\<lambda>(xr, tr).
                sum_list (map (\<lambda>(xv, tv). if tv = 0 then 0 else tv * (ln tv - xv)) (zip xr tr)))
                (zip (rows x) td))))"
proof -
  from init have self:
    "padding_idx self = pad" "confidence self = double (1 - s)" "smoothing self = s"
    "size' self = sz"
    by (auto simp add: LabelSmoothing_init_def)
  from fw obtain d v c td1 td2 td3 where
    sz: "int (dim1 x) = sz"
    and d: "float_of_int (sz - 2) = Inr d" "d \<noteq> 0"
    and v: "to_dtype (tensor2.dtype x) (double (s / d)) = Inr v"
    and c: "to_dtype (tensor2.dtype x) (double (1 - s)) = Inr c"
    and sc: "scatter1 (full (dim0 x) (dim1 x) v) target c = Inr td1"
    and col: "set_column (dim1 x) td1 pad 0 = Inr td2"
    and fill: "index_fill0 td2 (nonzero (map (\<lambda>t. t = pad) target)) 0 = Inr td3"
    and res: "self' = self\<lparr>true_dist := Some td3\<rparr>" "loss = KLDivLoss_sum (rows x) td3"
    by (rule forward_Inr) (simp_all add: self)
  define p where "p = (if pad < 0 then sz + pad else pad)"
  have sz2: "sz \<noteq> 2" using d by (auto simp add: float_of_int_zero)
  let ?t0 = "full (dim0 x) (dim1 x) v"
  have len0: "length ?t0 = dim0 x" by (simp add: full_def)
  from scatter1_Inr [OF sc] have
    a1: "length td1 = length ?t0" and a2: "length target \<le> length ?t0"
    and a3: "\<forall>k < length target. 0 \<le> target ! k \<and> target ! k < len (?t0 ! k) \<and>
               td1 ! k = (?t0 ! k)[nat (target ! k) := c]"
    by blast+
  from a3 i have a4: "0 \<le> target ! i \<and> target ! i < len (?t0 ! i) \<and>
               td1 ! i = (?t0 ! i)[nat (target ! i) := c]"
    by blast
  from a1 a2 a4 i len0 have s1:
    "length td1 = dim0 x" "i < dim0 x"
    "0 \<le> target ! i" "target ! i < len (full (dim0 x) (dim1 x) v ! i)"
    "td1 ! i = (full (dim0 x) (dim1 x) v ! i)[nat (target ! i) := c]"
    by simp_all
  from s1(2) have row0: "full (dim0 x) (dim1 x) v ! i = replicate (dim1 x) v"
    by (simp add: full_def)
  from s1(4) have tV: "nat (target ! i) < dim1 x" and tsz: "target ! i < sz"
    using s1(3) sz by (simp_all add: row0 len_def)
  from set_column_Inr [OF col] have c2:
    "0 \<le> p" "p < sz" "td2 = map (\<lambda>r. r[nat p := 0]) td1"
    unfolding p_def sz [symmetric] by blast+
  from c2(1,2) sz have pV: "nat p < dim1 x" by simp
  have len2: "length td2 = dim0 x" using c2(3) s1(1) by simp
  have row2: "td2 ! i = (replicate (dim1 x) v)[nat (target ! i) := c, nat p := 0]"
    using c2(3) s1 row0 by simp
  from index_fill0_Inr [OF fill] len2 s1(2) have f3:
    "length td3 = dim0 x"
    "td3 ! i = (if i \<in> set (nonzero (map (\<lambda>t. t = pad) target))
                then map (\<lambda>_. 0) (td2 ! i) else td2 ! i)"
    by simp_all
  have mask: "i \<in> set (nonzero (map (\<lambda>t. t = pad) target)) \<longleftrightarrow> target ! i = pad"
    using i by (simp add: set_nonzero)
  have len3: "length (td3 ! i) = dim1 x"
    using f3(2) row2 by simp
  have padrow: "target ! i = pad \<longrightarrow> (\<forall>j < dim1 x. td3 ! i ! j = 0)"
    using f3(2) mask row2 by simp
  have nonpad: "target ! i \<noteq> pad \<longrightarrow>
      td3 ! i ! nat p = 0 \<and>
      (target ! i \<noteq> p \<longrightarrow> td3 ! i ! nat (target ! i) = c) \<and>
      (\<forall>j < dim1 x. j \<noteq> nat (target ! i) \<and> j \<noteq> nat p \<longrightarrow> td3 ! i ! j = v) \<and>
      (target ! i \<noteq> p \<longrightarrow> sum_list (td3 ! i) = c + (of_int sz - 2) * v) \<and>
      (target ! i \<noteq> p \<and> c = 1 - s \<and> v = s / of_int (sz - 2) \<longrightarrow> sum_list (td3 ! i) = 1)"
  proof
    assume np: "target ! i \<noteq> pad"
    have r: "td3 ! i = (replicate (dim1 x) v)[nat (target ! i) := c, nat p := 0]"
      using f3(2) mask np row2 by simp
    have ne: "nat (target ! i) \<noteq> nat p" if "target ! i \<noteq> p"
      using that s1(3) c2(1) by simp
    have n2: "real (dim1 x) - 2 = of_int sz - 2" using sz by auto
    have sum: "sum_list (td3 ! i) = c + (of_int sz - 2) * v" if "target ! i \<noteq> p"
      unfolding r using smoothed_row(4) [OF tV pV ne [OF that], of v c] by (simp only: n2)
    have one: "sum_list (td3 ! i) = 1"
      if "target ! i \<noteq> p \<and> c = 1 - s \<and> v = s / of_int (sz - 2)"
    proof -
      have "(of_int (sz - 2) :: real) \<noteq> 0" using sz2 by simp
      then have "(of_int sz - 2) * (s / of_int (sz - 2)) = s" by simp
      with sum that show ?thesis by simp
    qed
    show "td3 ! i ! nat p = 0 \<and>
      (target ! i \<noteq> p \<longrightarrow> td3 ! i ! nat (target ! i) = c) \<and>
      (\<forall>j < dim1 x. j \<noteq> nat (target ! i) \<and> j \<noteq> nat p \<longrightarrow> td3 ! i ! j = v) \<and>
      (target ! i \<noteq> p \<longrightarrow> sum_list (td3 ! i) = c + (of_int sz - 2) * v) \<and>
      (target ! i \<noteq> p \<and> c = 1 - s \<and> v = s / of_int (sz - 2) \<longrightarrow> sum_list (td3 ! i) = 1)"
      unfolding r
      using smoothed_row(1) [OF tV pV, of v c] smoothed_row(2) [OF tV pV, of v c]
        smoothed_row(3) [OF tV pV, of v c] sum one ne
      unfolding r by (intro conjI impI) simp_all
  qed
  have ent: "\<forall>r \<in> set td3. \<forall>u \<in> set r. u = 0 \<or> u = c \<or> u = v"
    by (rule forward_entries [OF sc col fill])
  have kl: "0 \<le> c \<and> 0 \<le> v \<longrightarrow>
      loss = Finite (sum_list (map (\<lambda>(xr, tr).
        sum_list (map (\<lambda>(xv, tv). if tv = 0 then 0 else tv * (ln tv - xv)) (zip xr tr)))
        (zip (rows x) td3)))"
  proof
    assume "0 \<le> c \<and> 0 \<le> v"
    with ent have "\<forall>r \<in> set td3. \<forall>u \<in> set r. 0 \<le> u" by auto
    then show "loss = Finite (sum_list (map (\<lambda>(xr, tr).
        sum_list (map (\<lambda>(xv, tv). if tv = 0 then 0 else tv * (ln tv - xv)) (zip xr tr)))
        (zip (rows x) td3)))"
      unfolding res(2) by (rule KLDivLoss_sum_nonneg)
  qed
  have td: "true_dist self' = Some td3" using res(1) by simp
  have pp: "p = (if pad < 0 then sz + pad else pad)" by (rule p_def)
  show ?thesis
    apply (rule exI [where x = td3], rule exI [where x = d], rule exI [where x = c])
    apply (rule exI [where x = v], rule exI [where x = p])
    apply (intro conjI td sz d(1) c v pp c2(1) c2(2) f3(1) len3 s1(3) tsz padrow nonpad
        res(2) kl)
    done
qed


theorem label_smoothing_soft_targets_witness:
  "LabelSmoothing_init 4 0 (1 / 2) =
     Inr \<lparr>padding_idx = 0, confidence = 1 / 2, smoothing = 1 / 2, size' = 4,
          true_dist = None\<rparr> \<and>
   LabelSmoothing_forward
     \<lparr>padding_idx = 0, confidence = 1 / 2, smoothing = 1 / 2, size' = 4, true_dist = None\<rparr>
     \<lparr>dim0 = 2, dim1 = 4, dtype = float32, rows = [[0, 0, 0, 0], [0, 0, 0, 0]]\<rparr> [2, 0] =
   Inr (\<lparr>padding_idx = 0, confidence = 1 / 2, smoothing = 1 / 2, size' = 4,
          true_dist = Some [[0, 1 / 4, 1 / 2, 1 / 4], [0, 0, 0, 0]]\<rparr>,
        KLDivLoss_sum [[0, 0, 0, 0], [0, 0, 0, 0]] [[0, 1 / 4, 1 / 2, 1 / 4], [0, 0, 0, 0]]) \<and>
   (0::nat) < length [2, 0 :: int] \<and> (1::nat) < length [2, 0 :: int] \<and>
   [2, 0 :: int] ! 0 \<noteq> 0 \<and> [2, 0 :: int] ! 1 = 0 \<and>
   to_dtype float32 (double (1 - 1 / 2)) = Inr (1 / 2) \<and>
   float_of_int (4 - 2) = Inr 2 \<and>
   to_dtype float32 (double ((1 / 2) / 2)) = Inr (1 / 4) \<and>
   sum_list ([[0, 1 / 4, 1 / 2, 1 / 4], [0, 0, 0, 0 :: real]] ! 0) = 1 \<and>
   [[0, 1 / 4, 1 / 2, 1 / 4], [0, 0, 0, 0 :: real]] ! 1 ! 0 = 0 \<and>
   [[0, 1 / 4, 1 / 2, 1 / 4], [0, 0, 0, 0 :: real]] ! 1 ! 3 = 0 \<and>
   KLDivLoss_sum [[0, 0, 0, 0], [0, 0, 0, 0]] [[0, 1 / 4, 1 / 2, 1 / 4], [0, 0, 0, 0]] =
     Finite (sum_list (map (\<lambda>(xr, tr).
       sum_list (map (\<lambda>(xv, tv). if tv = 0 then 0 else tv * (ln tv - xv)) (zip xr tr)))
       (zip [[0, 0, 0, 0], [0, 0, 0, 0]] [[0, 1 / 4, 1 / 2, 1 / 4], [0, 0, 0, 0]])))"
proof -
  let ?self = "\<lparr>padding_idx = 0, confidence = 1 / 2, smoothing = 1 / 2, size' = 4,
                true_dist = None\<rparr>"
  let ?x = "\<lparr>dim0 = 2, dim1 = 4, dtype = float32, rows = [[0, 0, 0, 0], [0, 0, 0, 0]]\<rparr>"
  let ?td = "[[0, 1 / 4, 1 / 2, 1 / 4], [0, 0, 0, 0 :: real]]"
  have init: "LabelSmoothing_init 4 0 (1 / 2) = Inr ?self"
    by (simp add: LabelSmoothing_init_def double_def rounding_values)
  have i0: "(0::nat) < length [2, 0 :: int]" and i1: "(1::nat) < length [2, 0 :: int]"
    by simp_all
  have t: "[2, 0 :: int] ! 0 \<noteq> 0" "[2, 0 :: int] ! 1 = 0" by simp_all
  have cc: "to_dtype float32 (double (1 - 1 / 2)) = Inr (1 / 2)"
    by (simp add: to_dtype_def dtype_max_def double_def rounding_values)
  have dd: "float_of_int (4 - 2) = Inr 2"
    by (simp add: float_of_int_def rounding_values)
  have vv: "to_dtype float32 (double ((1 / 2) / 2)) = Inr (1 / 4)"
    by (simp add: to_dtype_def dtype_max_def double_def rounding_values)
  from label_smoothing_soft_targets [OF init forward_example i0] obtain td d c v p where
    td: "true_dist (?self\<lparr>true_dist := Some ?td\<rparr>) = Some td"
    and d: "float_of_int (4 - 2) = Inr d"
    and c: "to_dtype (tensor2.dtype ?x) (double (1 - 1 / 2)) = Inr c"
    and v: "to_dtype (tensor2.dtype ?x) (double ((1 / 2) / d)) = Inr v"
    and p: "p = (if (0::int) < 0 then 4 + 0 else 0)"
    and sum: "[2, 0 :: int] ! 0 \<noteq> p \<and> c = 1 - 1 / 2 \<and> v = (1 / 2) / of_int (4 - 2) \<longrightarrow>
                sum_list (td ! 0) = 1"
    and kl: "0 \<le> c \<and> 0 \<le> v \<longrightarrow>
      KLDivLoss_sum [[0, 0, 0, 0], [0, 0, 0, 0]] ?td =
        Finite (sum_list (map (\<lambda>(xr, tr).
          sum_list (map (\<lambda>(xv, tv). if tv = 0 then 0 else tv * (ln tv - xv)) (zip xr tr)))
          (zip (rows ?x) td)))"
    using t(1) by auto
  have e: "td = ?td" "d = 2" "c = 1 / 2" "v = 1 / 4" "p = 0"
    using td d c v p dd cc vv by simp_all
  from sum have s0: "sum_list (?td ! 0) = 1" unfolding e by simp
  from kl have l: "KLDivLoss_sum [[0, 0, 0, 0], [0, 0, 0, 0]] ?td =
     Finite (sum_list (map (\<lambda>(xr, tr).
       sum_list (map (\<lambda>(xv, tv). if tv = 0 then 0 else tv * (ln tv - xv)) (zip xr tr)))
       (zip [[0, 0, 0, 0], [0, 0, 0, 0]] ?td)))"
    unfolding e by simp
  from label_smoothing_soft_targets [OF init forward_example i1] t(2)
  have s1: "?td ! 1 ! 0 = 0" "?td ! 1 ! 3 = 0" by auto
  show ?thesis
    by (intro conjI init forward_example i0 i1 t cc dd vv s0 s1 l)
qed


section \<open>Greedy decoding: properties\<close>























section \<open>Training loop: properties\<close>



















end
